theory Spec2Isabelle
  imports Complex_Main
begin

section \<open>Receipt text interpretation: dates, field extractors, parser, validator\<close>

text \<open>
  The development embeds three source modules:
  \<^item> the date parser utility (\<^verbatim>\<open>extractDateFromText\<close> and its helpers),
  \<^item> the receipt parser of \<^verbatim>\<open>services/ocrService.js\<close> (suffix \<open>_ocr\<close> where it
    differs from its sibling),
  \<^item> the receipt parser of \<^verbatim>\<open>services/tesseractOcrService.js\<close> (suffix \<open>_tess\<close>).

  Conventions of the embedding.
  \<^item> A JavaScript string is a list of UTF-16 code units. Here a string is a \<open>char list\<close>,
    one \<open>char\<close> per code unit, so the code units range over 0..255 (Latin-1).
  \<^item> A Number is an IEEE 754 double: the type \<open>jsnum\<close> holds the rational that a finite
    double denotes, the two infinities and \<^verbatim>\<open>NaN\<close>. \<^verbatim>\<open>parseFloat\<close> and every arithmetic
    operation round their exact result to the nearest double (ties to even) and overflow
    to an infinity. The two zeros are one value: no operation of the sources tells them
    apart on the values that reach it. The components of a date are integers of at most
    four digits; they are of type \<open>int\<close>.
  \<^item> The clock, the local time zone (with its daylight-saving rules) and the host's
    \<^verbatim>\<open>Date.parse\<close> are not code of the repository; they are the fields of an environment
    record passed to every function that reads them.
\<close>

subsection \<open>Numbers and the environment\<close>

datatype jsnum = Fin rat | PInf | NInf | NaN

text \<open>Truthiness of a number: \<^verbatim>\<open>0\<close> and \<^verbatim>\<open>NaN\<close> are falsy.\<close>

fun truthy_num :: "jsnum \<Rightarrow> bool" where
  "truthy_num (Fin q) = (q \<noteq> 0)"
| "truthy_num PInf = True"
| "truthy_num NInf = True"
| "truthy_num NaN = False"

text \<open>
  Rounding to the nearest double. \<open>bitLength n\<close> is the number of binary digits of \<open>n\<close>,
  \<open>floorLog2 p q\<close> the integer part of the binary logarithm of \<open>p / q\<close>, and
  \<open>roundHalfEven num den\<close> the integer nearest to \<open>num / den\<close>, the even one of two that
  are equally near. A double has 53 significant binary digits and a unit in the last
  place of at least \<^verbatim>\<open>2^-1074\<close>; a result of \<^verbatim>\<open>2^1024\<close> or more is an infinity.
\<close>

function bitLength :: "int \<Rightarrow> int" where
  "bitLength n = (if n \<le> 0 then 0 else 1 + bitLength (n div 2))"
  by pat_completeness auto
termination
  by (relation "measure nat") auto

definition roundHalfEven :: "int \<Rightarrow> int \<Rightarrow> int" where
  "roundHalfEven num den =
     (let n = num div den; r = num mod den
      in if 2 * r < den then n else if 2 * r > den then n + 1
         else if even n then n else n + 1)"

definition floorLog2 :: "int \<Rightarrow> int \<Rightarrow> int" where
  "floorLog2 p q =
     (let k = bitLength p - bitLength q
      in if (if k \<ge> 0 then 2 ^ nat k * q \<le> p else q \<le> 2 ^ nat (- k) * p) then k else k - 1)"

text \<open>The double nearest to \<open>p / q\<close>, for positive \<open>p\<close> and \<open>q\<close>; \<open>2 ^ e\<close> is the unit in the last place.\<close>

definition roundPos :: "int \<Rightarrow> int \<Rightarrow> jsnum" where
  "roundPos p q =
     (let e = max (floorLog2 p q - 52) (- 1074);
          m = (if e \<ge> 0 then roundHalfEven p (q * 2 ^ nat e)
               else roundHalfEven (p * 2 ^ nat (- e)) q)
      in if e \<ge> 971 \<and> m * 2 ^ nat (e - 971) \<ge> 2 ^ 53 then PInf
         else Fin (if e \<ge> 0 then of_int (m * 2 ^ nat e) else of_int m / of_int (2 ^ nat (- e))))"

fun negNum :: "jsnum \<Rightarrow> jsnum" where
  "negNum (Fin a) = Fin (- a)"
| "negNum PInf = NInf"
| "negNum NInf = PInf"
| "negNum NaN = NaN"

definition roundDouble :: "rat \<Rightarrow> jsnum" where
  "roundDouble x =
     (case quotient_of x of (p, q) \<Rightarrow>
        if p = 0 then Fin 0 else if p > 0 then roundPos p q else negNum (roundPos (- p) q))"

text \<open>\<^verbatim>\<open>a + b\<close>, \<^verbatim>\<open>a - b\<close>, \<^verbatim>\<open>a * b\<close>, \<^verbatim>\<open>a / b\<close>, \<^verbatim>\<open>Math.abs\<close>, \<^verbatim>\<open>Math.round\<close> and \<^verbatim>\<open>a < b\<close>.\<close>

fun addNum :: "jsnum \<Rightarrow> jsnum \<Rightarrow> jsnum" where
  "addNum (Fin a) (Fin b) = roundDouble (a + b)"
| "addNum NaN _ = NaN"
| "addNum _ NaN = NaN"
| "addNum PInf NInf = NaN"
| "addNum NInf PInf = NaN"
| "addNum PInf _ = PInf"
| "addNum _ PInf = PInf"
| "addNum NInf _ = NInf"
| "addNum _ NInf = NInf"

definition subNum :: "jsnum \<Rightarrow> jsnum \<Rightarrow> jsnum" where
  "subNum a b = addNum a (negNum b)"

fun isNeg :: "jsnum \<Rightarrow> bool" where
  "isNeg (Fin a) = (a < 0)"
| "isNeg NInf = True"
| "isNeg _ = False"

fun mulNum :: "jsnum \<Rightarrow> jsnum \<Rightarrow> jsnum" where
  "mulNum (Fin a) (Fin b) = roundDouble (a * b)"
| "mulNum x y =
     (if x = NaN \<or> y = NaN \<or> x = Fin 0 \<or> y = Fin 0 then NaN
      else if isNeg x = isNeg y then PInf else NInf)"

fun divNum :: "jsnum \<Rightarrow> jsnum \<Rightarrow> jsnum" where
  "divNum (Fin a) (Fin b) =
     (if b = 0 then (if a = 0 then NaN else if a > 0 then PInf else NInf)
      else roundDouble (a / b))"
| "divNum (Fin a) PInf = Fin 0"
| "divNum (Fin a) NInf = Fin 0"
| "divNum PInf (Fin b) = (if b \<ge> 0 then PInf else NInf)"
| "divNum NInf (Fin b) = (if b \<ge> 0 then NInf else PInf)"
| "divNum _ _ = NaN"

fun absNum :: "jsnum \<Rightarrow> jsnum" where
  "absNum (Fin a) = Fin \<bar>a\<bar>"
| "absNum PInf = PInf"
| "absNum NInf = PInf"
| "absNum NaN = NaN"

fun roundNum :: "jsnum \<Rightarrow> jsnum" where
  "roundNum (Fin a) = Fin (of_int \<lfloor>a + 1 / 2\<rfloor>)"
| "roundNum x = x"

fun ltNum :: "jsnum \<Rightarrow> jsnum \<Rightarrow> bool" where
  "ltNum (Fin a) (Fin b) = (a < b)"
| "ltNum NaN _ = False"
| "ltNum _ NaN = False"
| "ltNum PInf _ = False"
| "ltNum _ NInf = False"
| "ltNum _ PInf = True"
| "ltNum NInf _ = True"

text \<open>\<^verbatim>\<open>x || 1\<close> and \<^verbatim>\<open>x || 0\<close>\<close>

definition orOne :: "jsnum \<Rightarrow> jsnum" where
  "orOne x = (if truthy_num x then x else Fin 1)"

definition orZero :: "jsnum \<Rightarrow> jsnum" where
  "orZero x = (if truthy_num x then x else Fin 0)"

text \<open>Truthiness of a value that is \<^verbatim>\<open>null\<close>/\<^verbatim>\<open>undefined\<close> or a string: the empty string is falsy.\<close>

definition truthy_str :: "string option \<Rightarrow> bool" where
  "truthy_str v = (case v of None \<Rightarrow> False | Some s \<Rightarrow> s \<noteq> [])"

text \<open>Truthiness of a value that is \<^verbatim>\<open>null\<close> or a number.\<close>

definition truthy_amt :: "jsnum option \<Rightarrow> bool" where
  "truthy_amt v = (case v of None \<Rightarrow> False | Some a \<Rightarrow> truthy_num a)"

text \<open>
  \<open>now\<close>: the time value of \<^verbatim>\<open>new Date()\<close> (milliseconds since the epoch, UTC);
  \<open>localTZA\<close>: the offset of local time in milliseconds, the operation \<^verbatim>\<open>LocalTZA(t, isUTC)\<close>
  of the language: for a UTC time value \<open>t\<close> when \<open>isUTC\<close> holds, for a local time value
  otherwise (the two differ around a daylight-saving transition);
  \<open>dparse\<close>: the host's \<^verbatim>\<open>new Date(string)\<close>, \<open>None\<close> for an Invalid Date.
\<close>

record env =
  now :: int
  localTZA :: "int \<Rightarrow> bool \<Rightarrow> int"
  dparse :: "string \<Rightarrow> int option"

subsection \<open>Calendar arithmetic of the Date object\<close>

definition msPerDay :: int where
  "msPerDay = 86400000"

text \<open>Day number (days since 1970-01-01) of a proleptic Gregorian date, month in 1..12.\<close>

definition daysFromCivil :: "int \<Rightarrow> int \<Rightarrow> int \<Rightarrow> int" where
  "daysFromCivil y m d =
     (let y' = (if m \<le> 2 then y - 1 else y);
          era = y' div 400;
          yoe = y' - era * 400;
          doy = (153 * (if m > 2 then m - 3 else m + 9) + 2) div 5 + d - 1;
          doe = yoe * 365 + yoe div 4 - yoe div 100 + doy
      in era * 146097 + doe - 719468)"

text \<open>The inverse: year, month (1..12) and day of a day number.\<close>

definition civilFromDays :: "int \<Rightarrow> int \<times> int \<times> int" where
  "civilFromDays z =
     (let z' = z + 719468;
          era = z' div 146097;
          doe = z' - era * 146097;
          yoe = (doe - doe div 1460 + doe div 36524 - doe div 146096) div 365;
          doy = doe - (365 * yoe + yoe div 4 - yoe div 100);
          mp = (5 * doy + 2) div 153;
          d = doy - (153 * mp + 2) div 5 + 1;
          m = (if mp < 10 then mp + 3 else mp - 9);
          y = yoe + era * 400
      in (if m \<le> 2 then y + 1 else y, m, d))"

text \<open>
  \<^verbatim>\<open>new Date(year, monthIndex, day)\<close>: years 0..99 mean 1900..1999, a month index
  outside 0..11 and a day outside the month roll over, the fields are local time
  (\<open>local\<close> is the local midnight, from which the offset in force at that local time is
  taken), and a time value beyond \<open>8.64e15\<close> is an Invalid Date.
\<close>

definition mkDate :: "env \<Rightarrow> int \<Rightarrow> int \<Rightarrow> int \<Rightarrow> int option" where
  "mkDate e y m d =
     (let yr = (if 0 \<le> y \<and> y \<le> 99 then 1900 + y else y);
          ym = yr + m div 12;
          mn = m mod 12;
          local = (daysFromCivil ym (mn + 1) 1 + d - 1) * msPerDay;
          t = local - localTZA e local False
      in if \<bar>t\<bar> \<le> 8640000000000000 then Some t else None)"

text \<open>\<^verbatim>\<open>getFullYear()\<close>: the year of the local date.\<close>

definition getFullYear :: "env \<Rightarrow> int \<Rightarrow> int" where
  "getFullYear e t = fst (civilFromDays ((t + localTZA e t True) div msPerDay))"

subsection \<open>Decimal output\<close>

definition digitChar :: "nat \<Rightarrow> char" where
  "digitChar n = ''0123456789'' ! (n mod 10)"

fun showNat :: "nat \<Rightarrow> string" where
  "showNat n = (if n < 10 then [digitChar n] else showNat (n div 10) @ [digitChar n])"

definition padStart :: "nat \<Rightarrow> string \<Rightarrow> string" where
  "padStart w s = replicate (w - length s) (CHR ''0'') @ s"

text \<open>
  \<^verbatim>\<open>d.toISOString().split('T')[0]\<close> for a valid time value: the UTC date, the year with
  four digits, or with a sign and six digits outside 0..9999.
\<close>

definition isoDate :: "int \<Rightarrow> string" where
  "isoDate t =
     (case civilFromDays (t div msPerDay) of (y, m, d) \<Rightarrow>
        (if 0 \<le> y \<and> y \<le> 9999 then padStart 4 (showNat (nat y))
         else (if y < 0 then ''-'' else ''+'') @ padStart 6 (showNat (nat \<bar>y\<bar>)))
        @ ''-'' @ padStart 2 (showNat (nat m)) @ ''-'' @ padStart 2 (showNat (nat d)))"

text \<open>\<^verbatim>\<open>new Date().toISOString().split('T')[0]\<close>\<close>

definition getToday :: "env \<Rightarrow> string" where
  "getToday e = isoDate (now e)"

subsection \<open>The parsed receipt\<close>

record lineItem =
  name :: string
  price :: jsnum
  quantity :: jsnum
  unitPrice :: "jsnum option"

text \<open>
  The object literal at the head of \<^verbatim>\<open>parseReceiptText\<close>, with the two properties that
  \<^verbatim>\<open>validateParsedData\<close> adds. \<open>needsReview\<close> is absent (undefined) until a rule sets it;
  every reader tests it for truthiness only, so absent is \<open>False\<close> here.
\<close>

record receipt =
  storeName :: "string option"
  storeAddress :: "string option"
  date :: "string option"
  items :: "lineItem list"
  total :: "jsnum option"
  tax :: "jsnum option"
  subtotal :: "jsnum option"
  receiptNumber :: "string option"
  rawText :: string
  confidence :: string
  needsReview :: bool
  reviewReason :: "string option"

subsection \<open>Validation\<close>

text \<open>
  \<^verbatim>\<open>result.reviewReason ? result.reviewReason + '; ' + msg : msg\<close>
\<close>

definition appendReason :: "string option \<Rightarrow> string \<Rightarrow> string" where
  "appendReason old msg =
     (case old of None \<Rightarrow> msg | Some s \<Rightarrow> if s \<noteq> [] then s @ ''; '' @ msg else msg)"

text \<open>First rule: no date.\<close>

definition defaultDate :: "env \<Rightarrow> receipt \<Rightarrow> receipt" where
  "defaultDate e r =
     (if \<not> truthy_str (date r)
      then r\<lparr>date := Some (getToday e), needsReview := True,
              reviewReason := Some (appendReason (reviewReason r) ''No date found in receipt'')\<rparr>
      else r)"

text \<open>Second rule: no store name.\<close>

definition defaultStore :: "receipt \<Rightarrow> receipt" where
  "defaultStore r =
     (if \<not> truthy_str (storeName r)
      then r\<lparr>storeName := Some ''Unknown Store'', needsReview := True,
              reviewReason := Some (appendReason (reviewReason r) ''Store name not detected'')\<rparr>
      else r)"

text \<open>\<^verbatim>\<open>result.items.reduce((sum, item) => sum + (item.price || 0), 0)\<close>\<close>

definition itemsTotal :: "lineItem list \<Rightarrow> jsnum" where
  "itemsTotal its = foldl (\<lambda>s it. addNum s (orZero (price it))) (Fin 0) its"

text \<open>
  The condition of the third rule:
  \<^verbatim>\<open>result.total && result.total > 0\<close> and
  \<^verbatim>\<open>itemsTotal > 0 && Math.abs(itemsTotal - result.total) > result.total * 0.3\<close>,
  where \<^verbatim>\<open>0.3\<close> is the double nearest to three tenths.
\<close>

definition totalMismatch :: "receipt \<Rightarrow> bool" where
  "totalMismatch r =
     (case total r of None \<Rightarrow> False
      | Some t \<Rightarrow> truthy_num t \<and> ltNum (Fin 0) t \<and> ltNum (Fin 0) (itemsTotal (items r))
                  \<and> ltNum (mulNum t (roundDouble (3 / 10)))
                           (absNum (subNum (itemsTotal (items r)) t)))"

text \<open>Third rule in \<^verbatim>\<open>ocrService.js\<close>: the reason is assigned.\<close>

definition checkTotal_ocr :: "receipt \<Rightarrow> receipt" where
  "checkTotal_ocr r =
     (if totalMismatch r
      then r\<lparr>needsReview := True,
              reviewReason := Some ''Items total does not match receipt total''\<rparr>
      else r)"

text \<open>Third rule in \<^verbatim>\<open>tesseractOcrService.js\<close>: the reason is appended.\<close>

definition checkTotal_tess :: "receipt \<Rightarrow> receipt" where
  "checkTotal_tess r =
     (if totalMismatch r
      then r\<lparr>needsReview := True,
              reviewReason := Some (appendReason (reviewReason r)
                                      ''Items total does not match receipt total'')\<rparr>
      else r)"

text \<open>
  The key of \<^verbatim>\<open>removeDuplicateItems\<close> is the string \<^verbatim>\<open>`${item.name}_${item.price}`\<close>. The
  string form of a number contains no underscore and determines the number (the
  strings of two doubles are equal exactly when the doubles are; \<^verbatim>\<open>NaN\<close> has the one string
  \<^verbatim>\<open>NaN\<close>), so two keys are equal exactly when the names and the prices are; the key is
  the pair.
\<close>

definition itemKey :: "lineItem \<Rightarrow> string \<times> jsnum" where
  "itemKey it = (name it, price it)"

text \<open>\<^verbatim>\<open>seen.get(key).quantity += (item.quantity || 1)\<close> on the kept items.\<close>

fun bumpSeen :: "lineItem \<Rightarrow> lineItem list \<Rightarrow> lineItem list" where
  "bumpSeen it [] = []"
| "bumpSeen it (k # ks) =
     (if itemKey k = itemKey it
      then k\<lparr>quantity := addNum (quantity k) (orOne (quantity it))\<rparr> # ks
      else k # bumpSeen it ks)"

text \<open>
  The filter callback run over the items in order; \<open>kept\<close> holds the items that passed
  so far, which are the values of the map \<^verbatim>\<open>seen\<close>.
\<close>

fun dedupLoop :: "lineItem list \<Rightarrow> lineItem list \<Rightarrow> lineItem list" where
  "dedupLoop kept [] = kept"
| "dedupLoop kept (it # rest) =
     (if itemKey it \<in> set (map itemKey kept)
      then dedupLoop (bumpSeen it kept) rest
      else dedupLoop (kept @ [it]) rest)"

definition removeDuplicateItems :: "lineItem list \<Rightarrow> lineItem list" where
  "removeDuplicateItems its = dedupLoop [] its"

definition dedupItems :: "receipt \<Rightarrow> receipt" where
  "dedupItems r = r\<lparr>items := removeDuplicateItems (items r)\<rparr>"

definition validateParsedData_ocr :: "env \<Rightarrow> receipt \<Rightarrow> receipt" where
  "validateParsedData_ocr e r = dedupItems (checkTotal_ocr (defaultStore (defaultDate e r)))"

definition validateParsedData_tess :: "env \<Rightarrow> receipt \<Rightarrow> receipt" where
  "validateParsedData_tess e r = dedupItems (checkTotal_tess (defaultStore (defaultDate e r)))"

text \<open>
  The spec's words for deduplication, as a second definition to compare the code with:
  the first item of each (name, price) group stays where it is and keeps its fields,
  and the quantities of the later members of the group are added to its quantity.
  \<open>cnt\<close> is how the quantity of a later member is counted; the spec's "sum of the
  group's quantities" is \<open>collapseBy (\<lambda>q. q)\<close>.
\<close>

fun collapseBy :: "(jsnum \<Rightarrow> jsnum) \<Rightarrow> lineItem list \<Rightarrow> lineItem list" where
  "collapseBy cnt [] = []"
| "collapseBy cnt (x # xs) =
     x\<lparr>quantity := foldl addNum (quantity x)
                      (map (\<lambda>y. cnt (quantity y)) [y \<leftarrow> xs. itemKey y = itemKey x])\<rparr>
     # collapseBy cnt [y \<leftarrow> xs. itemKey y \<noteq> itemKey x]"

text \<open>A kept item after the later items \<open>its\<close> were folded into it by the code.\<close>

definition mergedInto :: "lineItem list \<Rightarrow> lineItem \<Rightarrow> lineItem" where
  "mergedInto its k =
     k\<lparr>quantity := foldl addNum (quantity k)
                      (map (\<lambda>y. orOne (quantity y)) [y \<leftarrow> its. itemKey y = itemKey k])\<rparr>"

subsection \<open>Strings\<close>

text \<open>The character classes of the regular expressions: \<^verbatim>\<open>\d\<close>, \<^verbatim>\<open>\s\<close>, \<^verbatim>\<open>\w\<close>, \<^verbatim>\<open>[A-Za-z]\<close> and \<^verbatim>\<open>.\<close> (any code unit but a line terminator).\<close>

definition digit :: "char \<Rightarrow> bool" where
  "digit c = (c \<in> set ''0123456789'')"

definition space :: "char \<Rightarrow> bool" where
  "space c = (c \<in> set [CHR 0x09, CHR 0x0A, CHR 0x0B, CHR 0x0C, CHR 0x0D, CHR 0x20, CHR 0xA0])"

definition letter :: "char \<Rightarrow> bool" where
  "letter c = (c \<in> set ''ABCDEFGHIJKLMNOPQRSTUVWXYZabcdefghijklmnopqrstuvwxyz'')"

definition wordc :: "char \<Rightarrow> bool" where
  "wordc c = (letter c \<or> digit c \<or> c = CHR ''_'')"

definition anyc :: "char \<Rightarrow> bool" where
  "anyc c = (c \<notin> set [CHR 0x0A, CHR 0x0D])"

text \<open>\<^verbatim>\<open>toLowerCase\<close> and \<^verbatim>\<open>toUpperCase\<close> of an ASCII letter; \<^verbatim>\<open>toLowerCase\<close> of a string.\<close>

definition lowerChar :: "char \<Rightarrow> char" where
  "lowerChar c =
     (case map_of (zip ''ABCDEFGHIJKLMNOPQRSTUVWXYZ'' ''abcdefghijklmnopqrstuvwxyz'') c of
        Some d \<Rightarrow> d | None \<Rightarrow> c)"

definition upperChar :: "char \<Rightarrow> char" where
  "upperChar c =
     (case map_of (zip ''abcdefghijklmnopqrstuvwxyz'' ''ABCDEFGHIJKLMNOPQRSTUVWXYZ'') c of
        Some d \<Rightarrow> d | None \<Rightarrow> c)"

text \<open>
  The Latin-1 capitals \<open>0xC0\<close>..\<open>0xDE\<close> (but the multiplication sign \<open>0xD7\<close>) have their
  small letters 32 code units higher.
\<close>

definition lowerLatin :: "char \<Rightarrow> char" where
  "lowerLatin c =
     (if 192 \<le> (of_char c :: nat) \<and> (of_char c :: nat) \<le> 222 \<and> (of_char c :: nat) \<noteq> 215
      then char_of ((of_char c :: nat) + 32) else lowerChar c)"

definition toLowerCase :: "string \<Rightarrow> string" where
  "toLowerCase s = map lowerLatin s"

text \<open>\<^verbatim>\<open>s.trim()\<close>\<close>

definition trim :: "string \<Rightarrow> string" where
  "trim s = rev (dropWhile space (rev (dropWhile space s)))"

text \<open>\<^verbatim>\<open>s.includes(p)\<close>\<close>

fun includesStr :: "string \<Rightarrow> string \<Rightarrow> bool" where
  "includesStr [] p = (p = [])"
| "includesStr (x # xs) p = (take (length p) (x # xs) = p \<or> includesStr xs p)"

text \<open>\<^verbatim>\<open>text.split('\n')\<close>: \<open>cur\<close> is the piece being read, reversed.\<close>

fun splitLoop :: "string \<Rightarrow> string \<Rightarrow> string list" where
  "splitLoop cur [] = [rev cur]"
| "splitLoop cur (c # cs) =
     (if c = CHR 0x0A then rev cur # splitLoop [] cs else splitLoop (c # cur) cs)"

definition splitLines :: "string \<Rightarrow> string list" where
  "splitLines s = splitLoop [] s"

text \<open>
  The integer that a string of digits denotes (every caller passes a capture of
  digits). It is the value of \<^verbatim>\<open>parseInt\<close> for the captures of at most four digits of the
  date patterns; \<open>parseIntNum\<close> is \<^verbatim>\<open>parseInt\<close> of a capture \<^verbatim>\<open>\d+\<close> of any length, a double.
\<close>

definition digitVal :: "char \<Rightarrow> int" where
  "digitVal c = (case map_of (zip ''0123456789'' [0, 1, 2, 3, 4, 5, 6, 7, 8, 9]) c of
                   Some v \<Rightarrow> v | None \<Rightarrow> 0)"

definition parseInt :: "string \<Rightarrow> int" where
  "parseInt s = foldl (\<lambda>n c. 10 * n + digitVal c) 0 s"

definition parseIntNum :: "string \<Rightarrow> jsnum" where
  "parseIntNum s = roundDouble (of_int (parseInt s))"

text \<open>
  \<^verbatim>\<open>parseFloat\<close> of a \<^verbatim>\<open>\d+\.\d{2}\<close> capture: the double nearest to the decimal numeral
  (\<open>decimalValue\<close> is the rational it denotes).
\<close>

definition decimalValue :: "string \<Rightarrow> rat" where
  "decimalValue s =
     of_int (parseInt (takeWhile digit s))
     + of_int (parseInt (takeWhile digit (drop 1 (dropWhile digit s))))
       / 10 ^ length (takeWhile digit (drop 1 (dropWhile digit s)))"

definition parseFloat :: "string \<Rightarrow> jsnum" where
  "parseFloat s = roundDouble (decimalValue s)"

subsection \<open>Regular expressions\<close>

text \<open>
  The fragment of the regular expression language that the sources use. \<open>Rep min max
  greedy r\<close> is a quantifier (\<open>max = None\<close>: unbounded), \<open>Grp k r\<close> the \<open>k\<close>-th capture
  group, \<open>Bol\<close> and \<open>Eol\<close> are \<^verbatim>\<open>^\<close> and \<^verbatim>\<open>$\<close> (no pattern has the multiline flag), and
  \<open>NotAhead\<close> is a negative lookahead. The case-insensitive flag is expanded in the
  character sets.
\<close>

datatype regex =
    Sym "char \<Rightarrow> bool"
  | Eps
  | Seq regex regex
  | Alt regex regex
  | Rep nat "nat option" bool regex
  | Grp nat regex
  | Bol
  | Eol
  | NotAhead regex

text \<open>
  A matcher state: the index reached, the input from there on, and the captures, the
  latest first. A matcher maps a state to the states in which a match can end, in the
  order in which backtracking tries them; the first that lets the rest of the pattern
  match is the one the regular expression engine takes.
\<close>

type_synonym caps = "(nat \<times> string) list"
type_synonym mstate = "nat \<times> string \<times> caps"

text \<open>The obligatory iterations of a quantifier, then the continuation \<open>k\<close>.\<close>

primrec iter :: "nat \<Rightarrow> (mstate \<Rightarrow> mstate list) \<Rightarrow> (mstate \<Rightarrow> mstate list) \<Rightarrow> mstate \<Rightarrow> mstate list" where
  "iter 0 f k st = k st"
| "iter (Suc n) f k st = concat (map (iter n f k) (f st))"

text \<open>
  The optional iterations, at most \<open>mx\<close>. A greedy quantifier tries one more iteration
  before it stops, a lazy one stops first. An optional iteration that consumes nothing
  is rejected, as the language demands.
\<close>

function star :: "(mstate \<Rightarrow> mstate list) \<Rightarrow> nat option \<Rightarrow> bool \<Rightarrow> mstate \<Rightarrow> mstate list" where
  "star f mx g st =
     (if mx = Some 0 then [st]
      else if g
      then concat (map (star f (map_option (\<lambda>n. n - 1) mx) g)
                     [x \<leftarrow> f st. length (fst (snd x)) < length (fst (snd st))]) @ [st]
      else st # concat (map (star f (map_option (\<lambda>n. n - 1) mx) g)
                     [x \<leftarrow> f st. length (fst (snd x)) < length (fst (snd st))]))"
  by pat_completeness auto
termination
  by (relation "measure (\<lambda>(f, mx, g, st). length (fst (snd st)))") auto

declare star.simps [simp del]

primrec rm :: "regex \<Rightarrow> mstate \<Rightarrow> mstate list" where
  "rm (Sym P) st =
     (case fst (snd st) of [] \<Rightarrow> []
      | a # s' \<Rightarrow> if P a then [(Suc (fst st), s', snd (snd st))] else [])"
| "rm Eps st = [st]"
| "rm (Seq a b) st = concat (map (rm b) (rm a st))"
| "rm (Alt a b) st = rm a st @ rm b st"
| "rm (Rep mn mx g r) st = iter mn (rm r) (star (rm r) (map_option (\<lambda>n. n - mn) mx) g) st"
| "rm (Grp k r) st =
     map (\<lambda>x. (fst x, fst (snd x), (k, take (fst x - fst st) (fst (snd st))) # snd (snd x)))
       (rm r st)"
| "rm Bol st = (if fst st = 0 then [st] else [])"
| "rm Eol st = (if fst (snd st) = [] then [st] else [])"
| "rm (NotAhead r) st = (if rm r st = [] then [st] else [])"

text \<open>The least number of code units that a match of the pattern consumes.\<close>

primrec minLen :: "regex \<Rightarrow> nat" where
  "minLen (Sym P) = 1"
| "minLen Eps = 0"
| "minLen (Seq a b) = minLen a + minLen b"
| "minLen (Alt a b) = min (minLen a) (minLen b)"
| "minLen (Rep mn mx g r) = mn * minLen r"
| "minLen (Grp k r) = minLen r"
| "minLen Bol = 0"
| "minLen Eol = 0"
| "minLen (NotAhead r) = 0"

text \<open>The leftmost match at or after index \<open>i\<close>, where \<open>s\<close> is the input from \<open>i\<close> on.\<close>

fun rsearch :: "regex \<Rightarrow> nat \<Rightarrow> string \<Rightarrow> (nat \<times> mstate) option" where
  "rsearch r i s =
     (case rm r (i, s, []) of
        x # _ \<Rightarrow> Some (i, x)
      | [] \<Rightarrow> (case s of [] \<Rightarrow> None | a # s' \<Rightarrow> rsearch r (Suc i) s'))"

declare rsearch.simps [simp del]

text \<open>The match object: \<^verbatim>\<open>match.index\<close>, \<^verbatim>\<open>match[0]\<close>, the groups, and where the match ends.\<close>

record jsmatch =
  m_index :: nat
  m_text :: string
  m_groups :: caps
  m_end :: nat
  m_rest :: string

definition execFrom :: "regex \<Rightarrow> nat \<Rightarrow> string \<Rightarrow> jsmatch option" where
  "execFrom r i s =
     (case rsearch r i s of None \<Rightarrow> None
      | Some (k, j, rest, c) \<Rightarrow>
          Some \<lparr>m_index = k, m_text = take (j - k) (drop (k - i) s), m_groups = c,
                m_end = j, m_rest = rest\<rparr>)"

text \<open>\<^verbatim>\<open>s.match(re)\<close> for a pattern without the global flag, and \<^verbatim>\<open>re.test(s)\<close>.\<close>

definition rmatch :: "regex \<Rightarrow> string \<Rightarrow> jsmatch option" where
  "rmatch r s = execFrom r 0 s"

definition rtest :: "regex \<Rightarrow> string \<Rightarrow> bool" where
  "rtest r s = (rmatch r s \<noteq> None)"

text \<open>
  \<^verbatim>\<open>match[k]\<close> of a group that took part in the match; a group that did not is
  \<^verbatim>\<open>undefined\<close>, read by \<open>grpOpt\<close> as \<open>None\<close> and by \<open>grp\<close> as the empty string.
\<close>

definition grpOpt :: "jsmatch \<Rightarrow> nat \<Rightarrow> string option" where
  "grpOpt m k = map_of (m_groups m) k"

definition grp :: "jsmatch \<Rightarrow> nat \<Rightarrow> string" where
  "grp m k = (case grpOpt m k of None \<Rightarrow> [] | Some s \<Rightarrow> s)"

text \<open>
  \<^verbatim>\<open>while ((match = pattern.exec(text)) !== null)\<close> for a pattern with the global flag:
  each search starts where the last match ended. A match that consumed nothing would
  be found again forever; the loop is cut there. No date pattern matches the empty
  string (lemma \<open>execAll_datePatterns\<close> below), so the cut is never taken.
\<close>

function execAll :: "regex \<Rightarrow> nat \<Rightarrow> string \<Rightarrow> jsmatch list" where
  "execAll r i s =
     (case execFrom r i s of None \<Rightarrow> []
      | Some m \<Rightarrow> if length (m_rest m) < length s then m # execAll r (m_end m) (m_rest m)
                  else [m])"
  by pat_completeness auto
termination
  by (relation "measure (\<lambda>(r, i, s). length s)") auto

declare execAll.simps [simp del]

text \<open>
  \<^verbatim>\<open>s.replace(re, '')\<close> for a pattern with the global flag: the matches are cut out from
  left to right; after an empty match the next code unit is copied and the search goes
  on behind it.
\<close>

function removeAll :: "regex \<Rightarrow> nat \<Rightarrow> string \<Rightarrow> string" where
  "removeAll r i s =
     (case execFrom r i s of None \<Rightarrow> s
      | Some m \<Rightarrow>
          if length (m_rest m) < length s
          then take (m_index m - i) s @ removeAll r (m_end m) (m_rest m)
          else (case s of [] \<Rightarrow> [] | a # s' \<Rightarrow> a # removeAll r (Suc i) s'))"
  by pat_completeness auto
termination
  by (relation "measure (\<lambda>(r, i, s). length s)") auto

declare removeAll.simps [simp del]

text \<open>Pattern syntax: \<^verbatim>\<open>r+\<close>, \<^verbatim>\<open>r*\<close>, \<^verbatim>\<open>r?\<close>, \<^verbatim>\<open>r+?\<close>, \<^verbatim>\<open>r{m,n}\<close>, \<^verbatim>\<open>r{m,}\<close>, a literal, a set, a
  negated set, a literal under the \<^verbatim>\<open>i\<close> flag, sequences and alternatives.\<close>

definition rPlus :: "regex \<Rightarrow> regex" where "rPlus r = Rep 1 None True r"
definition rStar :: "regex \<Rightarrow> regex" where "rStar r = Rep 0 None True r"
definition rOpt :: "regex \<Rightarrow> regex" where "rOpt r = Rep 0 (Some 1) True r"
definition rLazyPlus :: "regex \<Rightarrow> regex" where "rLazyPlus r = Rep 1 None False r"
definition rRep :: "nat \<Rightarrow> nat \<Rightarrow> regex \<Rightarrow> regex" where "rRep m n r = Rep m (Some n) True r"
definition rAtLeast :: "nat \<Rightarrow> regex \<Rightarrow> regex" where "rAtLeast m r = Rep m None True r"
definition rLit :: "char \<Rightarrow> regex" where "rLit c = Sym (\<lambda>x. x = c)"
definition rSet :: "string \<Rightarrow> regex" where "rSet cs = Sym (\<lambda>x. x \<in> set cs)"
definition rLitI :: "char \<Rightarrow> regex" where "rLitI c = Sym (\<lambda>x. x = lowerChar c \<or> x = upperChar c)"
definition rCat :: "regex list \<Rightarrow> regex" where "rCat rs = foldr Seq rs Eps"
definition rStr :: "string \<Rightarrow> regex" where "rStr s = rCat (map rLit s)"
definition rStrI :: "string \<Rightarrow> regex" where "rStrI s = rCat (map rLitI s)"

fun rAlts :: "regex list \<Rightarrow> regex" where
  "rAlts [] = Sym (\<lambda>x. False)"
| "rAlts [r] = r"
| "rAlts (r # rs) = Alt r (rAlts rs)"

text \<open>\<^verbatim>\<open>\d{1,2}\<close>, \<^verbatim>\<open>\d{2}\<close>, \<^verbatim>\<open>\d{4}\<close>, \<^verbatim>\<open>\d{2,4}\<close> and the amount \<^verbatim>\<open>\d+\.\d{2}\<close>.\<close>

definition d12 :: regex where "d12 = rRep 1 2 (Sym digit)"
definition d2 :: regex where "d2 = rRep 2 2 (Sym digit)"
definition d4 :: regex where "d4 = rRep 4 4 (Sym digit)"
definition d24 :: regex where "d24 = rRep 2 4 (Sym digit)"
definition amount :: regex where "amount = rCat [rPlus (Sym digit), rLit (CHR ''.''), d2]"

subsection \<open>The date parser utility\<close>

text \<open>The errors thrown in the sources, by their messages.\<close>

datatype error =
    InvalidUSDate
  | InvalidEuropeanDate
  | UnknownMonth string
  | NoTextExtracted

text \<open>\<^verbatim>\<open>new Date(timeValue)\<close>: a time value beyond \<open>8.64e15\<close> is an Invalid Date.\<close>

definition timeClip :: "int \<Rightarrow> int option" where
  "timeClip t = (if \<bar>t\<bar> \<le> 8640000000000000 then Some t else None)"

definition normalizeYear :: "int \<Rightarrow> int" where
  "normalizeYear year =
     (if year \<ge> 1900 then year
      else if year \<le> 99 then (if year \<le> 30 then 2000 + year else 1900 + year)
      else year)"

text \<open>
  \<^verbatim>\<open>isValidDate\<close>: the date is not Invalid and lies between the first of January of the
  tenth year before the current one (local time) and seven days from now. A comparison
  with an Invalid Date is false.
\<close>

definition tenYearsAgo :: "env \<Rightarrow> int option" where
  "tenYearsAgo e = mkDate e (getFullYear e (now e) - 10) 0 1"

definition oneWeekFromNow :: "env \<Rightarrow> int option" where
  "oneWeekFromNow e = timeClip (now e + 7 * 24 * 60 * 60 * 1000)"

definition isValidDate :: "env \<Rightarrow> int option \<Rightarrow> bool" where
  "isValidDate e d =
     (case d of None \<Rightarrow> False
      | Some t \<Rightarrow>
          (case tenYearsAgo e of None \<Rightarrow> False | Some lo \<Rightarrow> t \<ge> lo)
          \<and> (case oneWeekFromNow e of None \<Rightarrow> False | Some hi \<Rightarrow> t \<le> hi))"

definition parseUSDate :: "env \<Rightarrow> string \<Rightarrow> string \<Rightarrow> string \<Rightarrow> error + int option" where
  "parseUSDate e month day year =
     (let m = parseInt month; d = parseInt day; y = normalizeYear (parseInt year)
      in if m > 12 \<or> d > 31 then Inl InvalidUSDate else Inr (mkDate e y (m - 1) d))"

definition parseEuropeanDate :: "env \<Rightarrow> string \<Rightarrow> string \<Rightarrow> string \<Rightarrow> error + int option" where
  "parseEuropeanDate e day month year =
     (let d = parseInt day; m = parseInt month; y = normalizeYear (parseInt year)
      in if m > 12 \<or> d > 31 then Inl InvalidEuropeanDate else Inr (mkDate e y (m - 1) d))"

definition parseAmbiguousDate :: "env \<Rightarrow> string \<Rightarrow> string \<Rightarrow> string \<Rightarrow> int option" where
  "parseAmbiguousDate e first second year =
     (let num1 = parseInt first; num2 = parseInt second; y = normalizeYear (parseInt year)
      in if num1 > 12 then mkDate e y (num2 - 1) num1
         else if num2 > 12 then mkDate e y (num1 - 1) num2
         else let usDate = mkDate e y (num1 - 1) num2; euDate = mkDate e y (num2 - 1) num1
              in if isValidDate e usDate \<and> \<not> isValidDate e euDate then usDate
                 else if isValidDate e euDate \<and> \<not> isValidDate e usDate then euDate
                 else usDate)"

text \<open>\<^verbatim>\<open>y.toString()\<close> of the normalized year, a natural number.\<close>

definition parseShortYear :: "env \<Rightarrow> string \<Rightarrow> string \<Rightarrow> string \<Rightarrow> int option" where
  "parseShortYear e first second year =
     (let y = normalizeYear (parseInt year)
      in parseAmbiguousDate e first second (showNat (nat y)))"

definition monthMap :: "(string \<times> int) list" where
  "monthMap =
     [(''jan'', 0), (''january'', 0), (''feb'', 1), (''february'', 1), (''mar'', 2), (''march'', 2),
      (''apr'', 3), (''april'', 3), (''may'', 4), (''jun'', 5), (''june'', 5), (''jul'', 6),
      (''july'', 6), (''aug'', 7), (''august'', 7), (''sep'', 8), (''september'', 8),
      (''oct'', 9), (''october'', 9), (''nov'', 10), (''november'', 10), (''dec'', 11),
      (''december'', 11)]"

definition parseMonthNameDate :: "env \<Rightarrow> string \<Rightarrow> string \<Rightarrow> string \<Rightarrow> error + int option" where
  "parseMonthNameDate e monthStr day year =
     (case map_of monthMap (toLowerCase monthStr) of
        None \<Rightarrow> Inl (UnknownMonth monthStr)
      | Some month \<Rightarrow>
          (let d = parseInt day; y = normalizeYear (parseInt year)
           in Inr (mkDate e y month d)))"

datatype dateType =
    US_FULL | EU_FULL | ISO | SHORT_YEAR | MONTH_NAME_SHORT | MONTH_NAME_FULL
  | REVERSE_MONTH_NAME | COMPACT | WITH_TIME | RECEIPT_DATE | TRANSACTION_DATE

text \<open>\<^verbatim>\<open>/^\d{4}[-\/]\d{2}[-\/]\d{2}$/\<close>\<close>

definition re_perfectIso :: regex where
  "re_perfectIso = rCat [Bol, d4, rSet ''-/'', d2, rSet ''-/'', d2, Eol]"

definition typeBonus :: "dateType \<Rightarrow> int" where
  "typeBonus ty =
     (case ty of
        ISO \<Rightarrow> 30
      | MONTH_NAME_SHORT \<Rightarrow> 25 | MONTH_NAME_FULL \<Rightarrow> 25 | REVERSE_MONTH_NAME \<Rightarrow> 25
      | RECEIPT_DATE \<Rightarrow> 20 | TRANSACTION_DATE \<Rightarrow> 20
      | COMPACT \<Rightarrow> 15
      | WITH_TIME \<Rightarrow> 10
      | US_FULL \<Rightarrow> 5 | EU_FULL \<Rightarrow> 5
      | SHORT_YEAR \<Rightarrow> - 5)"

definition calculateDateConfidence :: "string \<Rightarrow> dateType \<Rightarrow> string \<Rightarrow> int" where
  "calculateDateConfidence dateString ty fullText =
     (let lowerText = toLowerCase fullText;
          confidence = 50 + typeBonus ty
            + (if includesStr lowerText ''date'' then 10 else 0)
            + (if includesStr lowerText ''transaction'' then 8 else 0)
            + (if includesStr lowerText ''receipt'' then 8 else 0)
            + (if includesStr lowerText ''purchase'' then 5 else 0)
            + (if length dateString \<ge> 8 then 5 else 0)
            + (if rtest re_perfectIso dateString then 10 else 0)
      in min 100 (max 0 confidence))"

text \<open>The eleven patterns, in the order of the array \<^verbatim>\<open>datePatterns\<close>.\<close>

text \<open>\<^verbatim>\<open>[-\/.]\<close> and \<^verbatim>\<open>[.,\s]\<close>\<close>

definition sepC :: regex where "sepC = rSet ''-/.''"
definition puncSp :: regex where "puncSp = Sym (\<lambda>x. x \<in> set ''.,'' \<or> space x)"

text \<open>\<^verbatim>\<open>(\d{1,2})[-\/.](\d{1,2})[-\/.](\d{4})\<close> (US_FULL and EU_FULL)\<close>

definition re_usFull :: regex where
  "re_usFull = rCat [Grp 1 d12, sepC, Grp 2 d12, sepC, Grp 3 d4]"

text \<open>\<^verbatim>\<open>(\d{4})[-\/.](\d{1,2})[-\/.](\d{1,2})\<close>\<close>

definition re_iso :: regex where
  "re_iso = rCat [Grp 1 d4, sepC, Grp 2 d12, sepC, Grp 3 d12]"

text \<open>\<^verbatim>\<open>(\d{1,2})[-\/.](\d{1,2})[-\/.](\d{2})(?!\d)\<close>\<close>

definition re_shortYear :: regex where
  "re_shortYear = rCat [Grp 1 d12, sepC, Grp 2 d12, sepC, Grp 3 d2, NotAhead (Sym digit)]"

definition shortMonths :: regex where
  "shortMonths = rAlts (map rStrI [''Jan'', ''Feb'', ''Mar'', ''Apr'', ''May'', ''Jun'', ''Jul'',
     ''Aug'', ''Sep'', ''Oct'', ''Nov'', ''Dec''])"

definition fullMonths :: regex where
  "fullMonths = rAlts (map rStrI [''January'', ''February'', ''March'', ''April'', ''May'', ''June'',
     ''July'', ''August'', ''September'', ''October'', ''November'', ''December''])"

text \<open>\<^verbatim>\<open>(Jan|...|Dec)[a-z]*[.,\s]+(\d{1,2})[.,\s]+(\d{2,4})\<close> with the \<^verbatim>\<open>i\<close> flag\<close>

definition re_monthShort :: regex where
  "re_monthShort = rCat [Grp 1 shortMonths, rStar (Sym letter), rPlus puncSp, Grp 2 d12,
     rPlus puncSp, Grp 3 d24]"

text \<open>\<^verbatim>\<open>(January|...|December)[.,\s]+(\d{1,2})[.,\s]+(\d{2,4})\<close> with the \<^verbatim>\<open>i\<close> flag\<close>

definition re_monthFull :: regex where
  "re_monthFull = rCat [Grp 1 fullMonths, rPlus puncSp, Grp 2 d12, rPlus puncSp, Grp 3 d24]"

text \<open>\<^verbatim>\<open>(\d{1,2})[.,\s]+(January|...|December)[.,\s]+(\d{2,4})\<close> with the \<^verbatim>\<open>i\<close> flag\<close>

definition re_reverseMonth :: regex where
  "re_reverseMonth = rCat [Grp 1 d12, rPlus puncSp, Grp 2 fullMonths, rPlus puncSp, Grp 3 d24]"

text \<open>\<^verbatim>\<open>(\d{4})(\d{2})(\d{2})(?!\d)\<close>\<close>

definition re_compact :: regex where
  "re_compact = rCat [Grp 1 d4, Grp 2 d2, Grp 3 d2, NotAhead (Sym digit)]"

text \<open>\<^verbatim>\<open>(\d{1,2})[-\/.](\d{1,2})[-\/.](\d{2,4})\s+\d{1,2}:\d{2}\<close>\<close>

definition re_withTime :: regex where
  "re_withTime = rCat [Grp 1 d12, sepC, Grp 2 d12, sepC, Grp 3 d24, rPlus (Sym space), d12,
     rLit (CHR '':''), d2]"

text \<open>\<^verbatim>\<open>date[:\s]*(\d{1,2})[-\/.](\d{1,2})[-\/.](\d{2,4})\<close> with the \<^verbatim>\<open>i\<close> flag\<close>

definition colonSp :: regex where "colonSp = Sym (\<lambda>x. x = CHR '':'' \<or> space x)"

definition re_receiptDate :: regex where
  "re_receiptDate = rCat [rStrI ''date'', rStar colonSp, Grp 1 d12, sepC, Grp 2 d12, sepC,
     Grp 3 d24]"

text \<open>\<^verbatim>\<open>trans[action]*[:\s]*(\d{1,2})[-\/.](\d{1,2})[-\/.](\d{2,4})\<close> with the \<^verbatim>\<open>i\<close> flag;
  \<^verbatim>\<open>[action]\<close> is a set of six letters.\<close>

definition re_transactionDate :: regex where
  "re_transactionDate = rCat [rStrI ''trans'', rStar (rSet ''actionACTION''), rStar colonSp,
     Grp 1 d12, sepC, Grp 2 d12, sepC, Grp 3 d24]"

text \<open>
  The parsers of the patterns. The ISO and the compact pattern hand a string to the
  host's parser: \<^verbatim>\<open>new Date(`${match[1]}-${...padStart(2, '0')}-${...padStart(2, '0')}`)\<close>.
\<close>

definition datePatterns :: "(regex \<times> dateType \<times> (env \<Rightarrow> jsmatch \<Rightarrow> error + int option)) list" where
  "datePatterns =
     [(re_usFull, US_FULL, \<lambda>e m. parseUSDate e (grp m 1) (grp m 2) (grp m 3)),
      (re_usFull, EU_FULL, \<lambda>e m. parseEuropeanDate e (grp m 1) (grp m 2) (grp m 3)),
      (re_iso, ISO, \<lambda>e m. Inr (dparse e (grp m 1 @ ''-'' @ padStart 2 (grp m 2) @ ''-''
                                          @ padStart 2 (grp m 3)))),
      (re_shortYear, SHORT_YEAR, \<lambda>e m. Inr (parseShortYear e (grp m 1) (grp m 2) (grp m 3))),
      (re_monthShort, MONTH_NAME_SHORT, \<lambda>e m. parseMonthNameDate e (grp m 1) (grp m 2) (grp m 3)),
      (re_monthFull, MONTH_NAME_FULL, \<lambda>e m. parseMonthNameDate e (grp m 1) (grp m 2) (grp m 3)),
      (re_reverseMonth, REVERSE_MONTH_NAME,
         \<lambda>e m. parseMonthNameDate e (grp m 2) (grp m 1) (grp m 3)),
      (re_compact, COMPACT, \<lambda>e m. Inr (dparse e (grp m 1 @ ''-'' @ grp m 2 @ ''-'' @ grp m 3))),
      (re_withTime, WITH_TIME, \<lambda>e m. Inr (parseAmbiguousDate e (grp m 1) (grp m 2) (grp m 3))),
      (re_receiptDate, RECEIPT_DATE,
         \<lambda>e m. Inr (parseAmbiguousDate e (grp m 1) (grp m 2) (grp m 3))),
      (re_transactionDate, TRANSACTION_DATE,
         \<lambda>e m. Inr (parseAmbiguousDate e (grp m 1) (grp m 2) (grp m 3)))]"

text \<open>An entry of \<^verbatim>\<open>foundDates\<close>.\<close>

record candidate =
  c_date :: int
  c_confidence :: int
  c_type :: dateType
  c_original :: string
  c_index :: nat

text \<open>
  The body of the \<^verbatim>\<open>try\<close> block for one match: a parser that throws, and a parsed date
  that \<^verbatim>\<open>isValidDate\<close> rejects, add nothing.
\<close>

definition tryMatch :: "env \<Rightarrow> string \<Rightarrow> dateType \<Rightarrow> (env \<Rightarrow> jsmatch \<Rightarrow> error + int option)
    \<Rightarrow> jsmatch \<Rightarrow> candidate option" where
  "tryMatch e text ty parser m =
     (case parser e m of
        Inl err \<Rightarrow> None
      | Inr parsedDate \<Rightarrow>
          (case parsedDate of None \<Rightarrow> None
           | Some t \<Rightarrow>
               if isValidDate e parsedDate
               then Some \<lparr>c_date = t, c_confidence = calculateDateConfidence (m_text m) ty text,
                          c_type = ty, c_original = m_text m, c_index = m_index m\<rparr>
               else None))"

definition foundDates :: "env \<Rightarrow> string \<Rightarrow> candidate list" where
  "foundDates e text =
     concat (map (\<lambda>(pattern, ty, parser).
                    List.map_filter (tryMatch e text ty parser) (execAll pattern 0 text))
                 datePatterns)"

text \<open>The comparator of \<^verbatim>\<open>foundDates.sort\<close>; the clock is read once per call.\<close>

definition compareDates :: "env \<Rightarrow> candidate \<Rightarrow> candidate \<Rightarrow> int" where
  "compareDates e a b =
     (if c_confidence b \<noteq> c_confidence a then c_confidence b - c_confidence a
      else \<bar>now e - c_date a\<bar> - \<bar>now e - c_date b\<bar>)"

text \<open>\<^verbatim>\<open>Array.prototype.sort\<close> is stable: insertion from the right end.\<close>

fun insertBy :: "('a \<Rightarrow> 'a \<Rightarrow> int) \<Rightarrow> 'a \<Rightarrow> 'a list \<Rightarrow> 'a list" where
  "insertBy cmp x [] = [x]"
| "insertBy cmp x (y # ys) = (if cmp x y \<le> 0 then x # y # ys else y # insertBy cmp x ys)"

definition sortBy :: "('a \<Rightarrow> 'a \<Rightarrow> int) \<Rightarrow> 'a list \<Rightarrow> 'a list" where
  "sortBy cmp xs = foldr (insertBy cmp) xs []"

definition extractDateFromText :: "env \<Rightarrow> string \<Rightarrow> string option" where
  "extractDateFromText e text =
     (if text = [] then None
      else (case sortBy (compareDates e) (foundDates e text) of
              [] \<Rightarrow> None
            | bestDate # _ \<Rightarrow> Some (isoDate (c_date bestDate))))"

subsection \<open>The field extractors of the two receipt parsers\<close>

text \<open>
  The two services have the same extractors, but for the date patterns and the third
  validation rule. Each pattern below stands under the regular expression it embeds.
\<close>

text \<open>\<^verbatim>\<open>isStoreName\<close>: the six skip patterns
  \<^verbatim>\<open>/\d{2,4}[-\/]\d{1,2}[-\/]\d{1,4}/\<close>, \<^verbatim>\<open>/\$\d+\.\d{2}/\<close>, \<^verbatim>\<open>/total|tax|subtotal|receipt/i\<close>,
  \<^verbatim>\<open>/^\d+$/\<close>, \<^verbatim>\<open>/phone|tel|address/i\<close>, \<^verbatim>\<open>/^[*\-=]+$/\<close> and the test \<^verbatim>\<open>/[A-Za-z]{2,}/\<close>.\<close>

definition dsep :: regex where "dsep = rSet ''-/''"

definition storeSkipPatterns :: "regex list" where
  "storeSkipPatterns =
     [rCat [rRep 2 4 (Sym digit), dsep, d12, dsep, rRep 1 4 (Sym digit)],
      rCat [rLit (CHR ''$''), amount],
      rAlts (map rStrI [''total'', ''tax'', ''subtotal'', ''receipt'']),
      rCat [Bol, rPlus (Sym digit), Eol],
      rAlts (map rStrI [''phone'', ''tel'', ''address'']),
      rCat [Bol, rPlus (rSet ''*-=''), Eol]]"

definition isStoreName :: "string \<Rightarrow> bool" where
  "isStoreName line =
     (if list_ex (\<lambda>pattern. rtest pattern line) storeSkipPatterns then False
      else rtest (rAtLeast 2 (Sym letter)) line \<and> length line \<ge> 3 \<and> length line \<le> 50)"

text \<open>\<^verbatim>\<open>cleanStoreName\<close>: \<^verbatim>\<open>.replace(/[*\-=]{2,}/g, '').replace(/^\W+|\W+$/g, '').trim()\<close>\<close>

definition cleanStoreName :: "string \<Rightarrow> string" where
  "cleanStoreName line =
     trim (removeAll (Alt (rCat [Bol, rPlus (Sym (\<lambda>x. \<not> wordc x))])
                          (rCat [rPlus (Sym (\<lambda>x. \<not> wordc x)), Eol])) 0
             (removeAll (rAtLeast 2 (rSet ''*-='')) 0 line))"

text \<open>\<^verbatim>\<open>extractReceiptNumber\<close>: \<^verbatim>\<open>/receipt[#:\s]*(\w+)/i\<close>, \<^verbatim>\<open>/ref[#:\s]*(\w+)/i\<close>,
  \<^verbatim>\<open>/transaction[#:\s]*(\w+)/i\<close>, \<^verbatim>\<open>/#(\w+)/\<close>.\<close>

definition hashColonSp :: regex where
  "hashColonSp = Sym (\<lambda>x. x \<in> set ''#:'' \<or> space x)"

definition receiptNumberPatterns :: "regex list" where
  "receiptNumberPatterns =
     [rCat [rStrI ''receipt'', rStar hashColonSp, Grp 1 (rPlus (Sym wordc))],
      rCat [rStrI ''ref'', rStar hashColonSp, Grp 1 (rPlus (Sym wordc))],
      rCat [rStrI ''transaction'', rStar hashColonSp, Grp 1 (rPlus (Sym wordc))],
      rCat [rLit (CHR ''#''), Grp 1 (rPlus (Sym wordc))]]"

fun firstReceiptNumber :: "regex list \<Rightarrow> string \<Rightarrow> string option" where
  "firstReceiptNumber [] line = None"
| "firstReceiptNumber (pattern # rest) line =
     (case rmatch pattern line of
        None \<Rightarrow> firstReceiptNumber rest line
      | Some m \<Rightarrow> if length (grp m 1) \<ge> 3 then Some (grp m 1)
                  else firstReceiptNumber rest line)"

definition extractReceiptNumber :: "string \<Rightarrow> string option" where
  "extractReceiptNumber line = firstReceiptNumber receiptNumberPatterns line"

text \<open>The tail \<^verbatim>\<open>[:\s]*\$?(\d+\.\d{2})\<close> shared by the total, tax and subtotal patterns.\<close>

definition amountTail :: "regex list" where
  "amountTail = [rStar colonSp, rOpt (rLit (CHR ''$'')), Grp 1 amount]"

text \<open>\<^verbatim>\<open>extractTotal\<close>: \<^verbatim>\<open>total\<close>, \<^verbatim>\<open>amount\<close>, \<^verbatim>\<open>balance\<close>, \<^verbatim>\<open>grand\s+total\<close>, \<^verbatim>\<open>final\<close>, each followed
  by the tail, with the \<^verbatim>\<open>i\<close> flag.\<close>

definition re_total :: regex where
  "re_total = rCat (rStrI ''total'' # amountTail)"

definition totalPatterns :: "regex list" where
  "totalPatterns =
     [re_total,
      rCat (rStrI ''amount'' # amountTail),
      rCat (rStrI ''balance'' # amountTail),
      rCat (rStrI ''grand'' # rPlus (Sym space) # rStrI ''total'' # amountTail),
      rCat (rStrI ''final'' # amountTail)]"

fun firstTotal :: "regex list \<Rightarrow> string \<Rightarrow> jsnum option" where
  "firstTotal [] line = None"
| "firstTotal (pattern # rest) line =
     (case rmatch pattern line of
        None \<Rightarrow> firstTotal rest line
      | Some m \<Rightarrow> if ltNum (Fin 0) (parseFloat (grp m 1)) \<and> ltNum (parseFloat (grp m 1)) (Fin 10000)
                  then Some (parseFloat (grp m 1))
                  else firstTotal rest line)"

definition extractTotal :: "string \<Rightarrow> jsnum option" where
  "extractTotal line = firstTotal totalPatterns line"

text \<open>\<^verbatim>\<open>isMoreLikelyTotal\<close>: \<^verbatim>\<open>/total/i\<close>, \<^verbatim>\<open>/amount/i\<close>, \<^verbatim>\<open>/balance/i\<close>, \<^verbatim>\<open>/final/i\<close>.\<close>

definition strongTotalIndicators :: "regex list" where
  "strongTotalIndicators = map rStrI [''total'', ''amount'', ''balance'', ''final'']"

definition isMoreLikelyTotal :: "string \<Rightarrow> bool" where
  "isMoreLikelyTotal line = list_ex (\<lambda>pattern. rtest pattern line) strongTotalIndicators"

text \<open>The loop of \<^verbatim>\<open>extractTax\<close> and \<^verbatim>\<open>extractSubtotal\<close>: the amount of the first pattern that
  matches.\<close>

fun firstAmount :: "regex list \<Rightarrow> string \<Rightarrow> jsnum option" where
  "firstAmount [] line = None"
| "firstAmount (pattern # rest) line =
     (case rmatch pattern line of
        None \<Rightarrow> firstAmount rest line
      | Some m \<Rightarrow> Some (parseFloat (grp m 1)))"

definition taxPatterns :: "regex list" where
  "taxPatterns = map (\<lambda>w. rCat (rStrI w # amountTail)) [''tax'', ''gst'', ''vat'', ''hst'']"

definition extractTax :: "string \<Rightarrow> jsnum option" where
  "extractTax line = firstAmount taxPatterns line"

definition re_subtotal :: regex where
  "re_subtotal = rCat (rStrI ''subtotal'' # amountTail)"

definition subtotalPatterns :: "regex list" where
  "subtotalPatterns = [re_subtotal, rCat (rStrI ''sub'' # amountTail)]"

definition extractSubtotal :: "string \<Rightarrow> jsnum option" where
  "extractSubtotal line = firstAmount subtotalPatterns line"

text \<open>\<^verbatim>\<open>isNonItemLine\<close>: \<^verbatim>\<open>/total|subtotal|tax|discount|change/i\<close>,
  \<^verbatim>\<open>/thank\s+you|welcome|visit/i\<close>, \<^verbatim>\<open>/^\d{2,4}[-\/]\d{1,2}[-\/]\d{1,4}/\<close>,
  \<^verbatim>\<open>/phone|address|receipt/i\<close>, \<^verbatim>\<open>/^[*\-=\s]+$/\<close>, \<^verbatim>\<open>/cash|credit|debit|card/i\<close>,
  \<^verbatim>\<open>/^cashier|server|store/i\<close>.\<close>

definition itemSkipPatterns :: "regex list" where
  "itemSkipPatterns =
     [rAlts (map rStrI [''total'', ''subtotal'', ''tax'', ''discount'', ''change'']),
      rAlts [rCat [rStrI ''thank'', rPlus (Sym space), rStrI ''you''], rStrI ''welcome'',
             rStrI ''visit''],
      rCat [Bol, rRep 2 4 (Sym digit), dsep, d12, dsep, rRep 1 4 (Sym digit)],
      rAlts (map rStrI [''phone'', ''address'', ''receipt'']),
      rCat [Bol, rPlus (Sym (\<lambda>x. x \<in> set ''*-='' \<or> space x)), Eol],
      rAlts (map rStrI [''cash'', ''credit'', ''debit'', ''card'']),
      rAlts [rCat [Bol, rStrI ''cashier''], rStrI ''server'', rStrI ''store'']]"

definition isNonItemLine :: "string \<Rightarrow> bool" where
  "isNonItemLine line = list_ex (\<lambda>pattern. rtest pattern line) itemSkipPatterns"

text \<open>The four shapes of \<^verbatim>\<open>extractLineItem\<close> and the price on the next line.\<close>

text \<open>\<^verbatim>\<open>/^(.+?)\s+\$?(\d+\.\d{2})$/\<close>\<close>

definition re_item1 :: regex where
  "re_item1 = rCat [Bol, Grp 1 (rLazyPlus (Sym anyc)), rPlus (Sym space),
     rOpt (rLit (CHR ''$'')), Grp 2 amount, Eol]"

text \<open>\<^verbatim>\<open>/^(\d+)\s+(.+?)\s+\$?(\d+\.\d{2})$/\<close>\<close>

definition re_item2 :: regex where
  "re_item2 = rCat [Bol, Grp 1 (rPlus (Sym digit)), rPlus (Sym space),
     Grp 2 (rLazyPlus (Sym anyc)), rPlus (Sym space), rOpt (rLit (CHR ''$'')), Grp 3 amount, Eol]"

text \<open>\<^verbatim>\<open>/^(.+?)\s+@\s+\$?(\d+\.\d{2})\s*=?\s*\$?(\d+\.\d{2})$/\<close>\<close>

definition re_item3 :: regex where
  "re_item3 = rCat [Bol, Grp 1 (rLazyPlus (Sym anyc)), rPlus (Sym space), rLit (CHR ''@''),
     rPlus (Sym space), rOpt (rLit (CHR ''$'')), Grp 2 amount, rStar (Sym space),
     rOpt (rLit (CHR ''='')), rStar (Sym space), rOpt (rLit (CHR ''$'')), Grp 3 amount, Eol]"

text \<open>\<^verbatim>\<open>/^([A-Za-z].{2,30})$/\<close>\<close>

definition re_item4 :: regex where
  "re_item4 = rCat [Bol, Grp 1 (rCat [Sym letter, rRep 2 30 (Sym anyc)]), Eol]"

text \<open>\<^verbatim>\<open>/^\$?(\d+\.\d{2})$/\<close>\<close>

definition re_priceLine :: regex where
  "re_priceLine = rCat [Bol, rOpt (rLit (CHR ''$'')), Grp 1 amount, Eol]"

text \<open>\<^verbatim>\<open>Math.round(a / b)\<close>: the quotient is rounded to a double first.\<close>

definition roundQuotient :: "jsnum \<Rightarrow> jsnum \<Rightarrow> jsnum" where
  "roundQuotient a b = roundNum (divNum a b)"

text \<open>
  The loop over the four shapes returns at the first shape that matches; only the
  fourth falls through (to the end of the loop) when the next line is no price.
\<close>

definition extractLineItem :: "string \<Rightarrow> string \<Rightarrow> lineItem option" where
  "extractLineItem line nextLine =
     (if isNonItemLine line then None
      else case rmatch re_item1 line of
        Some m \<Rightarrow> Some \<lparr>name = trim (grp m 1), price = parseFloat (grp m 2),
                         quantity = Fin 1, unitPrice = None\<rparr>
      | None \<Rightarrow>
      (case rmatch re_item2 line of
        Some m \<Rightarrow> Some \<lparr>name = trim (grp m 2), price = parseFloat (grp m 3),
                         quantity = parseIntNum (grp m 1), unitPrice = None\<rparr>
      | None \<Rightarrow>
      (case rmatch re_item3 line of
        Some m \<Rightarrow> Some \<lparr>name = trim (grp m 1), price = parseFloat (grp m 3),
                         quantity = roundQuotient (parseFloat (grp m 3)) (parseFloat (grp m 2)),
                         unitPrice = Some (parseFloat (grp m 2))\<rparr>
      | None \<Rightarrow>
      (case rmatch re_item4 line of
        Some m \<Rightarrow>
          (case rmatch re_priceLine nextLine of
             Some priceMatch \<Rightarrow>
               Some \<lparr>name = trim (grp m 1), price = parseFloat (grp priceMatch 1),
                     quantity = Fin 1, unitPrice = None\<rparr>
           | None \<Rightarrow> None)
      | None \<Rightarrow> None))))"

subsection \<open>Dates in the two receipt parsers\<close>

text \<open>\<^verbatim>\<open>dateStr.trim().replace(/[^\w\s\/-:.,]/g, '')\<close>; in the set, \<^verbatim>\<open>\/-:\<close> is the range from
  the slash to the colon, which holds the digits.\<close>

definition cleanDateStr :: "string \<Rightarrow> string" where
  "cleanDateStr dateStr =
     removeAll (Sym (\<lambda>x. \<not> (wordc x \<or> space x \<or> x \<in> set ''/0123456789:'' \<or> x \<in> set ''.,''))) 0
       (trim dateStr)"

text \<open>The second attempt's reading of a two-digit year.\<close>

definition expandShortYear :: "int \<Rightarrow> int" where
  "expandShortYear year = (if year < 50 then 2000 + year else 1900 + year)"

text \<open>
  The five attempts of \<^verbatim>\<open>parseVariousDateFormats\<close>. Each yields the string it hands to
  \<^verbatim>\<open>new Date\<close>, or nothing (\<^verbatim>\<open>null\<close>) when its pattern does not match; the fifth tries
  a second string when the host rejects the first.
\<close>

text \<open>\<^verbatim>\<open>/(\d{1,2})[-\/](\d{1,2})[-\/](\d{2})$/\<close>\<close>

definition attempt2 :: "string \<Rightarrow> string option" where
  "attempt2 dateStr =
     (case rmatch (rCat [Grp 1 d12, dsep, Grp 2 d12, dsep, Grp 3 d2, Eol]) dateStr of
        None \<Rightarrow> None
      | Some parts \<Rightarrow>
          Some (grp parts 1 @ ''/'' @ grp parts 2 @ ''/''
                @ showNat (nat (expandShortYear (parseInt (grp parts 3))))))"

text \<open>\<^verbatim>\<open>/^\d{8}$/\<close>\<close>

definition attempt3 :: "string \<Rightarrow> string option" where
  "attempt3 dateStr =
     (if rtest (rCat [Bol, rRep 8 8 (Sym digit), Eol]) dateStr
      then Some (take 4 dateStr @ ''-'' @ take 2 (drop 4 dateStr) @ ''-'' @ take 2 (drop 6 dateStr))
      else None)"

text \<open>\<^verbatim>\<open>/(\d{1,2})\.(\d{1,2})\.(\d{2,4})/\<close>\<close>

definition attempt4 :: "string \<Rightarrow> string option" where
  "attempt4 dateStr =
     (case rmatch (rCat [Grp 1 d12, rLit (CHR ''.''), Grp 2 d12, rLit (CHR ''.''), Grp 3 d24]) dateStr of
        None \<Rightarrow> None
      | Some parts \<Rightarrow> Some (grp parts 2 @ ''/'' @ grp parts 1 @ ''/'' @ grp parts 3))"

text \<open>\<^verbatim>\<open>/(\d{1,2})[-\/](\d{1,2})[-\/](\d{2,4})/\<close>\<close>

definition attempt5 :: "env \<Rightarrow> string \<Rightarrow> int option" where
  "attempt5 e dateStr =
     (case rmatch (rCat [Grp 1 d12, dsep, Grp 2 d12, dsep, Grp 3 d24]) dateStr of
        None \<Rightarrow> None
      | Some parts \<Rightarrow>
          (let num1 = parseInt (grp parts 1); num2 = parseInt (grp parts 2);
               us = grp parts 1 @ ''/'' @ grp parts 2 @ ''/'' @ grp parts 3;
               eu = grp parts 2 @ ''/'' @ grp parts 1 @ ''/'' @ grp parts 3
           in if num1 > 12 then dparse e eu
              else if num2 > 12 then dparse e us
              else (case dparse e us of Some t \<Rightarrow> Some t | None \<Rightarrow> dparse e eu)))"

text \<open>The first attempt that yields a date that is not Invalid.\<close>

definition parseVariousDateFormats :: "env \<Rightarrow> string \<Rightarrow> int option" where
  "parseVariousDateFormats e dateStr0 =
     (let dateStr = cleanDateStr dateStr0 in
      case dparse e dateStr of Some t \<Rightarrow> Some t | None \<Rightarrow>
      (case Option.bind (attempt2 dateStr) (dparse e) of Some t \<Rightarrow> Some t | None \<Rightarrow>
      (case Option.bind (attempt3 dateStr) (dparse e) of Some t \<Rightarrow> Some t | None \<Rightarrow>
      (case Option.bind (attempt4 dateStr) (dparse e) of Some t \<Rightarrow> Some t | None \<Rightarrow>
       attempt5 e dateStr))))"

text \<open>The patterns of \<^verbatim>\<open>extractDate\<close>, named by their position in the array of
  \<^verbatim>\<open>tesseractOcrService.js\<close>; \<^verbatim>\<open>ocrService.js\<close> lists the first one twice.\<close>

definition numericDate :: regex where
  "numericDate = rCat [d12, dsep, d12, dsep, d24]"

definition shortMonthsDot :: regex where
  "shortMonthsDot = Sym (\<lambda>x. x = CHR ''.'' \<or> space x)"

definition commaDotSp :: regex where
  "commaDotSp = Sym (\<lambda>x. x \<in> set '',.'' \<or> space x)"

definition linePatterns_tess :: "regex list" where
  "linePatterns_tess =
     [Grp 1 numericDate,
      Grp 1 (rCat [d12, dsep, d12, dsep, d2]),
      rCat [Grp 1 shortMonths, rPlus shortMonthsDot, d12, rPlus commaDotSp, d24],
      Grp 1 (rCat [d12, rPlus shortMonthsDot, Grp 2 shortMonths, rPlus shortMonthsDot, d24]),
      rCat [Grp 1 fullMonths, rPlus (Sym space), d12, rPlus commaDotSp, d24],
      Grp 1 (rCat [d4, dsep, d12, dsep, d12]),
      Grp 1 (rRep 8 8 (Sym digit)),
      Grp 1 (rCat [d12, rLit (CHR ''.''), d12, rLit (CHR ''.''), d24]),
      rCat [Grp 1 numericDate, rPlus (Sym space), d12, rLit (CHR '':''), d2],
      rCat [rStrI ''date'', rStar colonSp, Grp 1 numericDate],
      rCat [Grp 1 numericDate, rPlus (Sym space), d12, rLit (CHR '':''), d2,
            rStar (Sym (\<lambda>x. x = CHR '':'' \<or> digit x)), rStar (Sym space),
            rOpt (Grp 2 (Alt (rStrI ''AM'') (rStrI ''PM'')))]]"

definition linePatterns_ocr :: "regex list" where
  "linePatterns_ocr = Grp 1 numericDate # linePatterns_tess"

text \<open>The window of \<^verbatim>\<open>extractDate\<close>: from the first of January of the fifth year before the
  current one to one day from now.\<close>

definition fiveYearsAgo :: "env \<Rightarrow> int option" where
  "fiveYearsAgo e = mkDate e (getFullYear e (now e) - 5) 0 1"

definition tomorrow :: "env \<Rightarrow> int option" where
  "tomorrow e = timeClip (now e + 24 * 60 * 60 * 1000)"

definition inLineWindow :: "env \<Rightarrow> int \<Rightarrow> bool" where
  "inLineWindow e t =
     ((case fiveYearsAgo e of None \<Rightarrow> False | Some lo \<Rightarrow> t \<ge> lo)
      \<and> (case tomorrow e of None \<Rightarrow> False | Some hi \<Rightarrow> t \<le> hi))"

text \<open>\<^verbatim>\<open>match[1] || match[0]\<close>\<close>

definition matchedDateStr :: "jsmatch \<Rightarrow> string" where
  "matchedDateStr m = (if truthy_str (grpOpt m 1) then grp m 1 else m_text m)"

fun extractDateLoop :: "env \<Rightarrow> regex list \<Rightarrow> string \<Rightarrow> string option" where
  "extractDateLoop e [] line = None"
| "extractDateLoop e (pattern # rest) line =
     (case rmatch pattern line of
        None \<Rightarrow> extractDateLoop e rest line
      | Some m \<Rightarrow>
          (case parseVariousDateFormats e (matchedDateStr m) of
             None \<Rightarrow> extractDateLoop e rest line
           | Some parsedDate \<Rightarrow>
               if inLineWindow e parsedDate then Some (isoDate parsedDate)
               else extractDateLoop e rest line))"

definition extractDate_ocr :: "env \<Rightarrow> string \<Rightarrow> string option" where
  "extractDate_ocr e line = extractDateLoop e linePatterns_ocr line"

definition extractDate_tess :: "env \<Rightarrow> string \<Rightarrow> string option" where
  "extractDate_tess e line = extractDateLoop e linePatterns_tess line"

subsection \<open>The line-oriented parser\<close>

text \<open>The object literal with which \<^verbatim>\<open>parseReceiptText\<close> starts.\<close>

definition emptyResult :: "string \<Rightarrow> receipt" where
  "emptyResult text =
     \<lparr>storeName = None, storeAddress = None, date = None, items = [], total = None,
      tax = None, subtotal = None, receiptNumber = None, rawText = text,
      confidence = ''medium'', needsReview = False, reviewReason = None\<rparr>"

text \<open>The body of the loop for the line of index \<open>i\<close>, as seven updates in the order of
  the source; \<open>xd\<close> is the service's \<^verbatim>\<open>extractDate\<close>.\<close>

definition stepStore :: "nat \<Rightarrow> string \<Rightarrow> receipt \<Rightarrow> receipt" where
  "stepStore i line r =
     (if \<not> truthy_str (storeName r) \<and> i < 5 \<and> isStoreName line
      then r\<lparr>storeName := Some (cleanStoreName line)\<rparr> else r)"

definition stepDate :: "(string \<Rightarrow> string option) \<Rightarrow> string \<Rightarrow> receipt \<Rightarrow> receipt" where
  "stepDate xd line r =
     (if truthy_str (xd line) \<and> \<not> truthy_str (date r) then r\<lparr>date := xd line\<rparr> else r)"

definition stepReceiptNumber :: "string \<Rightarrow> receipt \<Rightarrow> receipt" where
  "stepReceiptNumber line r =
     (if truthy_str (extractReceiptNumber line) \<and> \<not> truthy_str (receiptNumber r)
      then r\<lparr>receiptNumber := extractReceiptNumber line\<rparr> else r)"

definition stepTotal :: "string \<Rightarrow> receipt \<Rightarrow> receipt" where
  "stepTotal line r =
     (if truthy_amt (extractTotal line) \<and> (\<not> truthy_amt (total r) \<or> isMoreLikelyTotal line)
      then r\<lparr>total := extractTotal line\<rparr> else r)"

definition stepTax :: "string \<Rightarrow> receipt \<Rightarrow> receipt" where
  "stepTax line r = (if truthy_amt (extractTax line) then r\<lparr>tax := extractTax line\<rparr> else r)"

definition stepSubtotal :: "string \<Rightarrow> receipt \<Rightarrow> receipt" where
  "stepSubtotal line r =
     (if truthy_amt (extractSubtotal line) then r\<lparr>subtotal := extractSubtotal line\<rparr> else r)"

definition stepItem :: "string \<Rightarrow> string \<Rightarrow> receipt \<Rightarrow> receipt" where
  "stepItem line nextLine r =
     (case extractLineItem line nextLine of
        None \<Rightarrow> r
      | Some itemMatch \<Rightarrow> r\<lparr>items := items r @ [itemMatch]\<rparr>)"

definition processLine :: "(string \<Rightarrow> string option) \<Rightarrow> nat \<Rightarrow> string \<Rightarrow> string \<Rightarrow> receipt \<Rightarrow> receipt" where
  "processLine xd i line nextLine r =
     stepItem line nextLine (stepSubtotal line (stepTax line (stepTotal line
       (stepReceiptNumber line (stepDate xd line (stepStore i line r))))))"

text \<open>The loop over the lines from index \<open>i\<close>; \<^verbatim>\<open>lines[i + 1] || ''\<close> is the next line or the
  empty string.\<close>

fun processLines :: "(string \<Rightarrow> string option) \<Rightarrow> nat \<Rightarrow> string list \<Rightarrow> receipt \<Rightarrow> receipt" where
  "processLines xd i [] r = r"
| "processLines xd i (line # rest) r =
     processLines xd (Suc i) rest
       (processLine xd i line (case rest of [] \<Rightarrow> [] | nextLine # _ \<Rightarrow> nextLine) r)"

text \<open>\<^verbatim>\<open>text.split('\n').map(line => line.trim()).filter(line => line.length > 0)\<close>\<close>

definition receiptLines :: "string \<Rightarrow> string list" where
  "receiptLines text = filter (\<lambda>line. length line > 0) (map trim (splitLines text))"

definition parseReceiptText_ocr :: "env \<Rightarrow> string \<Rightarrow> error + receipt" where
  "parseReceiptText_ocr e text =
     (if text = [] \<or> length (trim text) = 0 then Inl NoTextExtracted
      else Inr (validateParsedData_ocr e
                  (processLines (extractDate_ocr e) 0 (receiptLines text) (emptyResult text))))"

definition parseReceiptText_tess :: "env \<Rightarrow> string \<Rightarrow> error + receipt" where
  "parseReceiptText_tess e text =
     (if text = [] \<or> length (trim text) = 0 then Inl NoTextExtracted
      else Inr (validateParsedData_tess e
                  (processLines (extractDate_tess e) 0 (receiptLines text) (emptyResult text))))"

subsection \<open>Concrete inputs\<close>

text \<open>
  An environment for closed evaluations: the clock reads 2026-11-02T12:00:00Z, local
  time is UTC, and the host parser is never reached on the inputs evaluated with it.
\<close>

definition env0 :: env where
  "env0 = \<lparr>now = 1793620800000, localTZA = (\<lambda>t isUTC. 0), dparse = (\<lambda>s. None)\<rparr>"

text \<open>
  The same clock in a zone with daylight saving, under the rule of the United Kingdom
  in force since 1996: one hour ahead of UTC from 01:00 UTC on the last Sunday of March
  to 01:00 UTC on the last Sunday of October. A local time that the change skips or
  repeats has the offset in force before the change.
\<close>

definition lastSunday :: "int \<Rightarrow> int \<Rightarrow> int" where
  "lastSunday y m = (let d = daysFromCivil y m 31 in d - (d + 4) mod 7)"

definition londonTZA :: "int \<Rightarrow> bool \<Rightarrow> int" where
  "londonTZA t isUTC =
     (let y = fst (civilFromDays (t div msPerDay));
          u = (if isUTC then t else t - 3600000)
      in if lastSunday y 3 * msPerDay + 3600000 \<le> u \<and> u < lastSunday y 10 * msPerDay + 3600000
         then 3600000 else 0)"

definition envLondon :: env where
  "envLondon = \<lparr>now = 1793620800000, localTZA = londonTZA, dparse = (\<lambda>s. None)\<rparr>"


definition milk :: lineItem where
  "milk = \<lparr>name = ''Milk'', price = Fin (7 / 2), quantity = Fin 1, unitPrice = None\<rparr>"

text \<open>A draft without date and store name whose single item (8.00) is far from the total (20.00).\<close>

definition draftMismatch :: receipt where
  "draftMismatch =
     \<lparr>storeName = None, storeAddress = None, date = None,
      items = [\<lparr>name = ''Milk'', price = Fin 8, quantity = Fin 1, unitPrice = None\<rparr>],
      total = Some (Fin 20), tax = None, subtotal = None, receiptNumber = None,
      rawText = ''Milk $8.00'' @ [CHR 0x0A] @ ''Total $20.00'', confidence = ''medium'',
      needsReview = False, reviewReason = None\<rparr>"

text \<open>A complete draft with the same item on two adjacent lines and the matching total.\<close>

definition draftDup :: receipt where
  "draftDup =
     \<lparr>storeName = Some ''SuperMart'', storeAddress = None, date = Some ''2024-01-15'',
      items = [milk, milk],
      total = Some (Fin 7), tax = None, subtotal = None, receiptNumber = None,
      rawText = [], confidence = ''medium'',
      needsReview = False, reviewReason = None\<rparr>"

text \<open>
  The item read from the line \<^verbatim>\<open>Milk @ 3.50=1.00\<close>: shape 3 rounds 1.00 / 3.50 to the
  quantity 0.
\<close>

definition zeroItem :: lineItem where
  "zeroItem = \<lparr>name = ''Milk'', price = Fin 1, quantity = Fin 0, unitPrice = Some (Fin (7 / 2))\<rparr>"

definition draftZero :: receipt where
  "draftZero = draftDup\<lparr>items := [zeroItem, zeroItem], total := None\<rparr>"

section \<open>Theorems\<close>

subsection \<open>Deduplication\<close>

lemma bumpSeen_keys: "map itemKey (bumpSeen it ks) = map itemKey ks"
  by (induction ks) (auto simp: itemKey_def)

lemma dedupLoop_distinct:
  "distinct (map itemKey kept) \<Longrightarrow> distinct (map itemKey (dedupLoop kept its))"
  by (induction its arbitrary: kept) (auto simp: bumpSeen_keys)

lemma dedupLoop_fixed:
  "distinct (map itemKey (kept @ its)) \<Longrightarrow> dedupLoop kept its = kept @ its"
proof (induction its arbitrary: kept)
  case Nil
  then show ?case by simp
next
  case (Cons it its)
  from Cons.prems have "itemKey it \<notin> set (map itemKey kept)" by auto
  moreover from Cons.prems have "distinct (map itemKey ((kept @ [it]) @ its))" by auto
  ultimately show ?case using Cons.IH [of "kept @ [it]"] by simp
qed

lemma removeDuplicateItems_distinct: "distinct (map itemKey (removeDuplicateItems its))"
  unfolding removeDuplicateItems_def using dedupLoop_distinct [of "[]" its] by simp

lemma removeDuplicateItems_idem:
  "removeDuplicateItems (removeDuplicateItems its) = removeDuplicateItems its"
  unfolding removeDuplicateItems_def
  using dedupLoop_fixed [of "[]" "dedupLoop [] its"] dedupLoop_distinct [of "[]" its]
  by simp

lemma mergedInto_other:
  "itemKey k \<noteq> itemKey it \<Longrightarrow> mergedInto (it # its) k = mergedInto its k"
  by (auto simp: mergedInto_def)

lemma mergedInto_same:
  "itemKey k = itemKey it \<Longrightarrow>
   mergedInto (it # its) k = mergedInto its (k\<lparr>quantity := addNum (quantity k) (orOne (quantity it))\<rparr>)"
  by (simp add: mergedInto_def itemKey_def)

lemma map_mergedInto_other:
  "itemKey it \<notin> set (map itemKey ks) \<Longrightarrow> map (mergedInto (it # its)) ks = map (mergedInto its) ks"
  by (induction ks) (auto simp: mergedInto_other)

lemma map_mergedInto_bump:
  "distinct (map itemKey ks) \<Longrightarrow> itemKey it \<in> set (map itemKey ks) \<Longrightarrow>
   map (mergedInto its) (bumpSeen it ks) = map (mergedInto (it # its)) ks"
proof (induction ks)
  case Nil
  then show ?case by simp
next
  case (Cons k ks)
  show ?case
  proof (cases "itemKey k = itemKey it")
    case True
    with Cons.prems have "itemKey it \<notin> set (map itemKey ks)" by auto
    then have "map (mergedInto (it # its)) ks = map (mergedInto its) ks"
      by (rule map_mergedInto_other)
    with True show ?thesis by (simp add: mergedInto_same)
  next
    case False
    with Cons show ?thesis by (auto simp: mergedInto_other)
  qed
qed

lemma collapseBy_head:
  "collapseBy orOne (x # xs) = mergedInto xs x # collapseBy orOne [y \<leftarrow> xs. itemKey y \<noteq> itemKey x]"
  by (simp add: mergedInto_def)

lemma dedupLoop_collapse:
  "distinct (map itemKey kept) \<Longrightarrow>
   dedupLoop kept its =
     map (mergedInto its) kept
     @ collapseBy orOne [y \<leftarrow> its. itemKey y \<notin> set (map itemKey kept)]"
proof (induction its arbitrary: kept)
  case Nil
  have "map (mergedInto []) kept = kept"
    by (induction kept) (simp_all add: mergedInto_def)
  then show ?case by simp
next
  case (Cons it its)
  show ?case
  proof (cases "itemKey it \<in> set (map itemKey kept)")
    case True
    have d: "distinct (map itemKey (bumpSeen it kept))"
      using Cons.prems by (simp add: bumpSeen_keys)
    have "dedupLoop kept (it # its) = dedupLoop (bumpSeen it kept) its"
      using True by simp
    also have "\<dots> = map (mergedInto its) (bumpSeen it kept)
        @ collapseBy orOne [y \<leftarrow> its. itemKey y \<notin> set (map itemKey (bumpSeen it kept))]"
      by (rule Cons.IH [OF d])
    also have "\<dots> = map (mergedInto (it # its)) kept
        @ collapseBy orOne [y \<leftarrow> it # its. itemKey y \<notin> set (map itemKey kept)]"
      using True Cons.prems by (simp add: map_mergedInto_bump bumpSeen_keys)
    finally show ?thesis .
  next
    case False
    have d: "distinct (map itemKey (kept @ [it]))"
      using Cons.prems False by simp
    have f1: "[y \<leftarrow> its. itemKey y \<notin> set (map itemKey (kept @ [it]))]
            = [y \<leftarrow> [y \<leftarrow> its. itemKey y \<notin> set (map itemKey kept)]. itemKey y \<noteq> itemKey it]"
      by (induction its) auto
    have f2: "[y \<leftarrow> [y \<leftarrow> its. itemKey y \<notin> set (map itemKey kept)]. itemKey y = itemKey it]
            = [y \<leftarrow> its. itemKey y = itemKey it]"
      using False by (induction its) auto
    have m: "mergedInto [y \<leftarrow> its. itemKey y \<notin> set (map itemKey kept)] it = mergedInto its it"
      unfolding mergedInto_def f2 ..
    have "dedupLoop kept (it # its) = dedupLoop (kept @ [it]) its"
      using False by simp
    also have "\<dots> = map (mergedInto its) (kept @ [it])
        @ collapseBy orOne [y \<leftarrow> its. itemKey y \<notin> set (map itemKey (kept @ [it]))]"
      by (rule Cons.IH [OF d])
    also have "\<dots> = map (mergedInto (it # its)) kept
        @ collapseBy orOne [y \<leftarrow> it # its. itemKey y \<notin> set (map itemKey kept)]"
    proof -
      have a: "map (mergedInto its) (kept @ [it])
             = map (mergedInto (it # its)) kept @ [mergedInto its it]"
        using False by (simp add: map_mergedInto_other)
      have b: "[y \<leftarrow> it # its. itemKey y \<notin> set (map itemKey kept)]
             = it # [y \<leftarrow> its. itemKey y \<notin> set (map itemKey kept)]"
        using False by simp
      show ?thesis
        unfolding a b f1 collapseBy_head m by (simp only: append_assoc append_Cons append_Nil)
    qed
    finally show ?thesis .
  qed
qed

lemma removeDuplicateItems_collapse: "removeDuplicateItems its = collapseBy orOne its"
  using dedupLoop_collapse [of "[]" its] by (simp add: removeDuplicateItems_def)

lemma collapseBy_cong:
  "(\<And>y. y \<in> set xs \<Longrightarrow> f (quantity y) = g (quantity y)) \<Longrightarrow> collapseBy f xs = collapseBy g xs"
proof (induction f xs rule: collapseBy.induct)
  case (1 cnt)
  then show ?case by simp
next
  case (2 cnt x xs)
  have "map (\<lambda>y. cnt (quantity y)) [y \<leftarrow> xs. itemKey y = itemKey x]
      = map (\<lambda>y. g (quantity y)) [y \<leftarrow> xs. itemKey y = itemKey x]"
    using 2 by (auto intro: map_cong)
  moreover have "collapseBy cnt [y \<leftarrow> xs. itemKey y \<noteq> itemKey x]
      = collapseBy g [y \<leftarrow> xs. itemKey y \<noteq> itemKey x]"
    using 2 by auto
  ultimately show ?case by (simp only: collapseBy.simps)
qed

subsection \<open>Validation\<close>

lemma isoDate_nonempty: "isoDate t \<noteq> []"
  by (simp add: isoDate_def split: prod.splits)

lemma defaultDate_date: "truthy_str (date (defaultDate e r))"
  by (simp add: defaultDate_def truthy_str_def getToday_def isoDate_nonempty)

lemma defaultStore_store: "truthy_str (storeName (defaultStore r))"
  by (simp add: defaultStore_def truthy_str_def)

lemma validate_items_ocr:
  "items (validateParsedData_ocr e r) = removeDuplicateItems (items r)"
  by (simp add: validateParsedData_ocr_def dedupItems_def checkTotal_ocr_def
      defaultStore_def defaultDate_def)

lemma validate_items_tess:
  "items (validateParsedData_tess e r) = removeDuplicateItems (items r)"
  by (simp add: validateParsedData_tess_def dedupItems_def checkTotal_tess_def
      defaultStore_def defaultDate_def)

lemma validated_fixed_ocr:
  "defaultStore (defaultDate e (validateParsedData_ocr e r)) = validateParsedData_ocr e r"
proof -
  have "truthy_str (date (validateParsedData_ocr e r))"
    using defaultDate_date [of e r]
    by (simp add: validateParsedData_ocr_def dedupItems_def checkTotal_ocr_def defaultStore_def)
  moreover have "truthy_str (storeName (validateParsedData_ocr e r))"
    using defaultStore_store [of "defaultDate e r"]
    by (simp add: validateParsedData_ocr_def dedupItems_def checkTotal_ocr_def)
  ultimately show ?thesis by (simp add: defaultDate_def defaultStore_def)
qed

lemma validated_fixed_tess:
  "defaultStore (defaultDate e (validateParsedData_tess e r)) = validateParsedData_tess e r"
proof -
  have "truthy_str (date (validateParsedData_tess e r))"
    using defaultDate_date [of e r]
    by (simp add: validateParsedData_tess_def dedupItems_def checkTotal_tess_def defaultStore_def)
  moreover have "truthy_str (storeName (validateParsedData_tess e r))"
    using defaultStore_store [of "defaultDate e r"]
    by (simp add: validateParsedData_tess_def dedupItems_def checkTotal_tess_def)
  ultimately show ?thesis by (simp add: defaultDate_def defaultStore_def)
qed

lemma dedupItems_fixed:
  "items r = removeDuplicateItems its \<Longrightarrow> dedupItems r = r"
  by (simp add: dedupItems_def removeDuplicateItems_idem)

text \<open>
  C3. Every validation rule that triggers appends its reason to \<open>reviewReason\<close>, earlier
  reasons being preserved. The validator of \<^verbatim>\<open>tesseractOcrService.js\<close> does so; the one of
  \<^verbatim>\<open>ocrService.js\<close> assigns the reason of the third rule and so discards the reasons of
  the first two. On the draft parsed from the two lines \<^verbatim>\<open>Milk $8.00\<close> and
  \<^verbatim>\<open>Total $20.00\<close> (no date, no store name, items 8.00 against total 20.00) all three
  rules trigger: the first validator keeps three reasons, the second only the last.
\<close>

theorem validate_ocr_discards_reasons:
  "reviewReason (validateParsedData_tess e draftMismatch)
     = Some ''No date found in receipt; Store name not detected; Items total does not match receipt total''
   \<and> needsReview (validateParsedData_tess e draftMismatch)
   \<and> reviewReason (validateParsedData_ocr e draftMismatch)
     = Some ''Items total does not match receipt total''
   \<and> needsReview (validateParsedData_ocr e draftMismatch)"
proof -
  have m: "totalMismatch (defaultStore (defaultDate e draftMismatch))"
    by code_simp
  show ?thesis
    using m
    by (simp add: validateParsedData_tess_def validateParsedData_ocr_def dedupItems_def
        checkTotal_tess_def checkTotal_ocr_def
        defaultStore_def defaultDate_def draftMismatch_def truthy_str_def appendReason_def)
qed

text \<open>
  C4 as stated, "validate (validate x) = validate x for every draft", is false for both
  validators: on a complete draft with the item Milk 3.50 twice and the total 7.00 the
  first run raises no flag and merges the two items; the second run sums the prices of
  the merged list (3.50), finds it more than 30% away from 7.00 and sets the flag.
\<close>

theorem validate_not_idempotent:
  "validateParsedData_ocr env0 (validateParsedData_ocr env0 draftDup)
     \<noteq> validateParsedData_ocr env0 draftDup
   \<and> validateParsedData_tess env0 (validateParsedData_tess env0 draftDup)
     \<noteq> validateParsedData_tess env0 draftDup"
proof -
  have "\<not> needsReview (validateParsedData_ocr env0 draftDup)"
    by code_simp
  moreover have "needsReview (validateParsedData_ocr env0 (validateParsedData_ocr env0 draftDup))"
    by code_simp
  moreover have "\<not> needsReview (validateParsedData_tess env0 draftDup)"
    by code_simp
  moreover have "needsReview (validateParsedData_tess env0 (validateParsedData_tess env0 draftDup))"
    by code_simp
  ultimately show ?thesis by metis
qed

text \<open>
  C4, amended. A second run of validation re-applies only the total-mismatch rule to
  the validated record: the defaults are in place and the items are already merged.
  Hence validation is idempotent on every draft on whose validated result that rule
  does not fire, and in every case the second run leaves the items and all fields
  other than \<open>needsReview\<close> and \<open>reviewReason\<close> as they are.
\<close>

theorem validate_twice:
  "validateParsedData_ocr e (validateParsedData_ocr e x) = checkTotal_ocr (validateParsedData_ocr e x)
   \<and> validateParsedData_tess e (validateParsedData_tess e x) = checkTotal_tess (validateParsedData_tess e x)
   \<and> (\<not> totalMismatch (validateParsedData_ocr e x) \<longrightarrow>
        validateParsedData_ocr e (validateParsedData_ocr e x) = validateParsedData_ocr e x)
   \<and> (\<not> totalMismatch (validateParsedData_tess e x) \<longrightarrow>
        validateParsedData_tess e (validateParsedData_tess e x) = validateParsedData_tess e x)
   \<and> items (validateParsedData_ocr e (validateParsedData_ocr e x)) = items (validateParsedData_ocr e x)
   \<and> items (validateParsedData_tess e (validateParsedData_tess e x)) = items (validateParsedData_tess e x)"
proof -
  let ?v = "validateParsedData_ocr e x" and ?w = "validateParsedData_tess e x"
  have "items (checkTotal_ocr ?v) = removeDuplicateItems (items x)"
    by (simp add: checkTotal_ocr_def validate_items_ocr)
  then have o: "validateParsedData_ocr e ?v = checkTotal_ocr ?v"
    unfolding validateParsedData_ocr_def [of e ?v] validated_fixed_ocr
    by (rule dedupItems_fixed)
  have "items (checkTotal_tess ?w) = removeDuplicateItems (items x)"
    by (simp add: checkTotal_tess_def validate_items_tess)
  then have t: "validateParsedData_tess e ?w = checkTotal_tess ?w"
    unfolding validateParsedData_tess_def [of e ?w] validated_fixed_tess
    by (rule dedupItems_fixed)
  show ?thesis
    unfolding o t by (simp add: checkTotal_ocr_def checkTotal_tess_def)
qed

theorem validate_twice_witness:
  "\<not> totalMismatch (validateParsedData_ocr env0 draftZero)
   \<and> \<not> totalMismatch (validateParsedData_tess env0 draftZero)
   \<and> validateParsedData_ocr env0 (validateParsedData_ocr env0 draftZero)
       = validateParsedData_ocr env0 draftZero
   \<and> validateParsedData_tess env0 (validateParsedData_tess env0 draftZero)
       = validateParsedData_tess env0 draftZero"
proof -
  have a: "\<not> totalMismatch (validateParsedData_ocr env0 draftZero)"
    by code_simp
  have b: "\<not> totalMismatch (validateParsedData_tess env0 draftZero)"
    by code_simp
  show ?thesis
    using a b validate_twice [of env0 draftZero] by blast
qed

text \<open>
  C5 as stated is false where it says "the sum of the group's quantities": a later
  duplicate is added as \<^verbatim>\<open>item.quantity || 1\<close>, so a duplicate of quantity 0 counts as 1.
  Two items read from two lines \<^verbatim>\<open>Milk @ 3.50=1.00\<close> have quantity 0 each; validation
  merges them into one item of quantity 1, whereas the sum of the quantities is 0.
\<close>

theorem dedup_zero_quantity_not_sum:
  "map quantity (items (validateParsedData_ocr env0 draftZero)) = [Fin 1]
   \<and> map quantity (items (validateParsedData_tess env0 draftZero)) = [Fin 1]
   \<and> map quantity (collapseBy (\<lambda>q. q) (items draftZero)) = [Fin 0]"
  by code_simp

text \<open>
  C5, amended. After validation (either validator) no two items have the same
  (name, price); the items are the first members of the (name, price) groups in their
  original order with their other fields, and the quantity of each is its own quantity
  plus, for every later member of its group, that member's quantity counted as 1 when
  it is 0 or not a number. Where every quantity is a number other than 0 this is the
  sum of the group's quantities.
\<close>

theorem validate_merges_duplicates:
  "items (validateParsedData_ocr e r) = collapseBy orOne (items r)
   \<and> items (validateParsedData_tess e r) = collapseBy orOne (items r)
   \<and> distinct (map itemKey (items (validateParsedData_ocr e r)))
   \<and> distinct (map itemKey (items (validateParsedData_tess e r)))
   \<and> ((\<forall>it \<in> set (items r). truthy_num (quantity it)) \<longrightarrow>
        items (validateParsedData_ocr e r) = collapseBy (\<lambda>q. q) (items r)
        \<and> items (validateParsedData_tess e r) = collapseBy (\<lambda>q. q) (items r))"
proof -
  have "(\<forall>it \<in> set (items r). truthy_num (quantity it)) \<longrightarrow>
        collapseBy orOne (items r) = collapseBy (\<lambda>q. q) (items r)"
    by (auto intro!: collapseBy_cong simp: orOne_def)
  then show ?thesis
    using removeDuplicateItems_distinct [of "items r"]
    by (simp add: validate_items_ocr validate_items_tess removeDuplicateItems_collapse)
qed

theorem validate_merges_duplicates_witness:
  "items draftDup = [milk, milk] \<and> truthy_num (quantity milk)
   \<and> items (validateParsedData_ocr env0 draftDup) = [milk\<lparr>quantity := Fin 2\<rparr>]
   \<and> items (validateParsedData_tess env0 draftDup) = [milk\<lparr>quantity := Fin 2\<rparr>]"
proof -
  have h: "\<forall>it \<in> set (items draftDup). truthy_num (quantity it)"
    by (simp add: draftDup_def milk_def)
  have c: "collapseBy (\<lambda>q. q) (items draftDup) = [milk\<lparr>quantity := Fin 2\<rparr>]"
    by code_simp
  have i: "items draftDup = [milk, milk] \<and> truthy_num (quantity milk)"
    by (simp add: draftDup_def milk_def)
  show ?thesis
    using h c i validate_merges_duplicates [of env0 draftDup] by metis
qed

subsection \<open>The hard error and the soft absences\<close>

lemma trim_Nil_iff: "trim s = [] \<longleftrightarrow> list_all space s"
proof
  assume "trim s = []"
  then have a: "\<forall>x \<in> set (dropWhile space s). space x"
    by (simp add: trim_def dropWhile_eq_Nil_conv)
  have "dropWhile space s = []"
  proof (rule ccontr)
    assume n: "dropWhile space s \<noteq> []"
    then have "\<not> space (hd (dropWhile space s))" by (rule hd_dropWhile)
    moreover from n have "hd (dropWhile space s) \<in> set (dropWhile space s)" by simp
    ultimately show False using a by blast
  qed
  then show "list_all space s" by (simp add: dropWhile_eq_Nil_conv list_all_iff)
next
  assume "list_all space s"
  then have h: "dropWhile space s = []" by (simp add: dropWhile_eq_Nil_conv list_all_iff)
  show "trim s = []" unfolding trim_def h by simp
qed

lemma sortBy_Nil: "sortBy cmp [] = []"
  by (simp add: sortBy_def)

lemma insertBy_not_Nil: "insertBy cmp x xs \<noteq> []"
  by (cases xs) auto

lemma sortBy_Nil_iff: "sortBy cmp xs = [] \<longleftrightarrow> xs = []"
  by (cases xs) (simp_all add: sortBy_def insertBy_not_Nil)

text \<open>
  C8. \<^verbatim>\<open>parseReceiptText\<close> (of either service) throws exactly when the text is empty or
  consists of white space only; otherwise it returns a record. \<^verbatim>\<open>extractDateFromText\<close>
  returns a value for every text: it returns \<open>None\<close> (\<^verbatim>\<open>null\<close>) exactly when no candidate
  survives, as on the text \<^verbatim>\<open>no dates here\<close>, whatever the clock, the zone and the host
  parser.
\<close>

theorem parse_error_iff_blank:
  "(isl (parseReceiptText_ocr e txt) \<longleftrightarrow> list_all space txt)
   \<and> (isl (parseReceiptText_tess e txt) \<longleftrightarrow> list_all space txt)
   \<and> (list_all space txt \<longrightarrow> parseReceiptText_ocr e txt = Inl NoTextExtracted
                               \<and> parseReceiptText_tess e txt = Inl NoTextExtracted)
   \<and> (extractDateFromText e txt = None \<longleftrightarrow> foundDates e txt = [])
   \<and> extractDateFromText e ''no dates here'' = None"
proof -
  have a: "(txt = [] \<or> length (trim txt) = 0) \<longleftrightarrow> list_all space txt"
    using trim_Nil_iff [of "txt"] by (auto simp: trim_def)
  have b: "extractDateFromText e ''no dates here'' = None"
    by code_simp
  have n: "foundDates e [] = []"
    by code_simp
  have c: "extractDateFromText e txt = None \<longleftrightarrow> foundDates e txt = []"
  proof (cases "txt = []")
    case True
    then show ?thesis using n by (simp add: extractDateFromText_def)
  next
    case False
    then show ?thesis
      using sortBy_Nil_iff [of "compareDates e" "foundDates e txt"]
      by (cases "sortBy (compareDates e) (foundDates e txt)")
         (simp_all add: extractDateFromText_def)
  qed
  show ?thesis
    using a b c by (simp add: parseReceiptText_ocr_def parseReceiptText_tess_def)
qed

theorem parse_error_iff_blank_witness:
  "list_all space ''   '' \<and> parseReceiptText_ocr env0 ''   '' = Inl NoTextExtracted
   \<and> parseReceiptText_tess env0 ''   '' = Inl NoTextExtracted
   \<and> foundDates env0 ''no dates here'' = []
   \<and> extractDateFromText env0 ''no dates here'' = None
   \<and> \<not> list_all space ''RANDOM NOISE 123''
   \<and> \<not> isl (parseReceiptText_ocr env0 ''RANDOM NOISE 123'')"
proof -
  have a: "list_all space ''   ''" by (simp add: space_def)
  have b: "\<not> list_all space ''RANDOM NOISE 123''" by (simp add: space_def)
  have c: "foundDates env0 ''no dates here'' = []" by code_simp
  show ?thesis
    using a b c parse_error_iff_blank [of env0 "''   ''"]
      parse_error_iff_blank [of env0 "''RANDOM NOISE 123''"]
      parse_error_iff_blank [of env0 "''no dates here''"]
    by blast
qed

subsection \<open>The missing-everything scenario\<close>

lemma random_noise_ocr:
  "parseReceiptText_ocr e ''RANDOM NOISE 123'' =
     Inr \<lparr>storeName = Some ''RANDOM NOISE 123'', storeAddress = None,
          date = Some (getToday e), items = [], total = None, tax = None,
          subtotal = None, receiptNumber = None, rawText = ''RANDOM NOISE 123'',
          confidence = ''medium'', needsReview = True,
          reviewReason = Some ''No date found in receipt''\<rparr>"
  by code_simp

lemma random_noise_tess:
  "parseReceiptText_tess e ''RANDOM NOISE 123'' =
     Inr \<lparr>storeName = Some ''RANDOM NOISE 123'', storeAddress = None,
          date = Some (getToday e), items = [], total = None, tax = None,
          subtotal = None, receiptNumber = None, rawText = ''RANDOM NOISE 123'',
          confidence = ''medium'', needsReview = True,
          reviewReason = Some ''No date found in receipt''\<rparr>"
  by code_simp

lemma getToday_env0: "getToday env0 = ''2026-11-02''"
  by code_simp

text \<open>
  C2 as stated is false: the line \<^verbatim>\<open>RANDOM NOISE 123\<close> passes \<^verbatim>\<open>isStoreName\<close> (no skip pattern
  matches, it has two consecutive letters and 16 code units), so it becomes the store
  name and the second rule does not trigger.
\<close>

theorem random_noise_is_store_name:
  "parseReceiptText_ocr env0 ''RANDOM NOISE 123'' =
     Inr \<lparr>storeName = Some ''RANDOM NOISE 123'', storeAddress = None,
          date = Some ''2026-11-02'', items = [], total = None, tax = None,
          subtotal = None, receiptNumber = None, rawText = ''RANDOM NOISE 123'',
          confidence = ''medium'', needsReview = True,
          reviewReason = Some ''No date found in receipt''\<rparr>
   \<and> parseReceiptText_tess env0 ''RANDOM NOISE 123'' =
     Inr \<lparr>storeName = Some ''RANDOM NOISE 123'', storeAddress = None,
          date = Some ''2026-11-02'', items = [], total = None, tax = None,
          subtotal = None, receiptNumber = None, rawText = ''RANDOM NOISE 123'',
          confidence = ''medium'', needsReview = True,
          reviewReason = Some ''No date found in receipt''\<rparr>"
  unfolding random_noise_ocr random_noise_tess getToday_env0 by simp

text \<open>
  C2, amended. For the text \<^verbatim>\<open>RANDOM NOISE 123\<close> both services return the store name
  \<^verbatim>\<open>RANDOM NOISE 123\<close>, the current date, no items, and \<open>needsReview\<close> with the single
  reason "No date found in receipt".
\<close>

theorem random_noise_parse:
  "parseReceiptText_ocr e ''RANDOM NOISE 123'' =
     Inr \<lparr>storeName = Some ''RANDOM NOISE 123'', storeAddress = None,
          date = Some (getToday e), items = [], total = None, tax = None,
          subtotal = None, receiptNumber = None, rawText = ''RANDOM NOISE 123'',
          confidence = ''medium'', needsReview = True,
          reviewReason = Some ''No date found in receipt''\<rparr>
   \<and> parseReceiptText_tess e ''RANDOM NOISE 123'' =
     Inr \<lparr>storeName = Some ''RANDOM NOISE 123'', storeAddress = None,
          date = Some (getToday e), items = [], total = None, tax = None,
          subtotal = None, receiptNumber = None, rawText = ''RANDOM NOISE 123'',
          confidence = ''medium'', needsReview = True,
          reviewReason = Some ''No date found in receipt''\<rparr>"
  unfolding random_noise_ocr random_noise_tess by simp

theorem random_noise_parse_witness:
  "storeName (projr (parseReceiptText_ocr env0 ''RANDOM NOISE 123'')) = Some ''RANDOM NOISE 123''
   \<and> reviewReason (projr (parseReceiptText_tess env0 ''RANDOM NOISE 123''))
       = Some ''No date found in receipt''"
  using random_noise_parse [of env0] by simp

subsection \<open>Two-digit years\<close>




subsection \<open>The plausibility windows\<close>











subsection \<open>The matcher on character-set quantifiers\<close>


lemma rm_Sym_Cons: "rm (Sym P) (i, a # s, c) = (if P a then [(Suc i, s, c)] else [])"
  by simp

lemma rm_Sym_Nil: "rm (Sym P) (i, [], c) = []"
  by simp

lemma star_Sym_iff:
  "(j, s', c') \<in> set (star (rm (Sym P)) mx g (i, s, c)) \<longleftrightarrow>
     (\<exists>w. s = w @ s' \<and> list_all P w \<and> (\<forall>m. mx = Some m \<longrightarrow> length w \<le> m)
          \<and> j = i + length w \<and> c' = c)"
proof (induction s arbitrary: i mx)
  case Nil
  show ?case
    by (subst star.simps) auto
next
  case (Cons a t)
  show ?case
  proof (cases "mx = Some 0")
    case True
    then show ?thesis by (subst star.simps) auto
  next
    case False
    have bound: "\<And>w. (\<forall>m. map_option (\<lambda>n. n - 1) mx = Some m \<longrightarrow> length w \<le> m)
        \<longleftrightarrow> (\<forall>m. mx = Some m \<longrightarrow> Suc (length w) \<le> m)"
      using False by (cases mx) auto
    show ?thesis
    proof (cases "P a")
      case True
      have "(j, s', c') \<in> set (star (rm (Sym P)) mx g (i, a # t, c)) \<longleftrightarrow>
            (j, s', c') = (i, a # t, c)
            \<or> (j, s', c') \<in> set (star (rm (Sym P)) (map_option (\<lambda>n. n - 1) mx) g (Suc i, t, c))"
        using False True by (subst star.simps) auto
      also have "\<dots> \<longleftrightarrow> (j, s', c') = (i, a # t, c)
            \<or> (\<exists>w. t = w @ s' \<and> list_all P w \<and> (\<forall>m. mx = Some m \<longrightarrow> Suc (length w) \<le> m)
                 \<and> j = Suc i + length w \<and> c' = c)"
        by (simp only: Cons.IH bound)
      also have "\<dots> \<longleftrightarrow> (\<exists>w. a # t = w @ s' \<and> list_all P w
            \<and> (\<forall>m. mx = Some m \<longrightarrow> length w \<le> m) \<and> j = i + length w \<and> c' = c)"
        (is "?L \<longleftrightarrow> ?R")
      proof
        assume ?L
        then show ?R
        proof
          assume "(j, s', c') = (i, a # t, c)"
          then show ?R by (intro exI [of _ "[]"]) auto
        next
          assume "\<exists>w. t = w @ s' \<and> list_all P w \<and> (\<forall>m. mx = Some m \<longrightarrow> Suc (length w) \<le> m)
                 \<and> j = Suc i + length w \<and> c' = c"
          then obtain w where "t = w @ s'" "list_all P w"
            "\<forall>m. mx = Some m \<longrightarrow> Suc (length w) \<le> m" "j = Suc i + length w" "c' = c" by blast
          with True show ?R by (intro exI [of _ "a # w"]) auto
        qed
      next
        assume ?R
        then obtain w where w: "a # t = w @ s'" "list_all P w"
            "\<forall>m. mx = Some m \<longrightarrow> length w \<le> m" "j = i + length w" "c' = c" by blast
        show ?L
        proof (cases w)
          case Nil
          with w show ?thesis by auto
        next
          case (Cons b w')
          with w show ?thesis by auto
        qed
      qed
      finally show ?thesis .
    next
      case nP: False
      have "(j, s', c') \<in> set (star (rm (Sym P)) mx g (i, a # t, c)) \<longleftrightarrow>
            (j, s', c') = (i, a # t, c)"
        using False nP by (subst star.simps) auto
      also have "\<dots> \<longleftrightarrow> (\<exists>w. a # t = w @ s' \<and> list_all P w
            \<and> (\<forall>m. mx = Some m \<longrightarrow> length w \<le> m) \<and> j = i + length w \<and> c' = c)"
        (is "?L \<longleftrightarrow> ?R")
      proof
        assume ?L
        then show ?R by (intro exI [of _ "[]"]) auto
      next
        assume ?R
        then obtain w where w: "a # t = w @ s'" "list_all P w" "j = i + length w" "c' = c"
          by blast
        show ?L
        proof (cases w)
          case Nil
          with w show ?thesis by auto
        next
          case (Cons b w')
          with w nP show ?thesis by auto
        qed
      qed
      finally show ?thesis .
    qed
  qed
qed

lemma iter_Sym_iff:
  "x \<in> set (iter n (rm (Sym P)) K (i, s, c)) \<longleftrightarrow>
     (\<exists>w t. s = w @ t \<and> length w = n \<and> list_all P w \<and> x \<in> set (K (i + n, t, c)))"
proof (induction n arbitrary: i s)
  case 0
  show ?case by simp
next
  case (Suc n)
  show ?case
  proof (cases s)
    case Nil
    then show ?thesis by simp
  next
    case (Cons a t)
    show ?thesis
    proof (cases "P a")
      case True
      have "x \<in> set (iter (Suc n) (rm (Sym P)) K (i, s, c)) \<longleftrightarrow>
            x \<in> set (iter n (rm (Sym P)) K (Suc i, t, c))"
        using Cons True by simp
      also have "\<dots> \<longleftrightarrow> (\<exists>w u. t = w @ u \<and> length w = n \<and> list_all P w
            \<and> x \<in> set (K (Suc i + n, u, c)))"
        by (rule Suc.IH)
      also have "\<dots> \<longleftrightarrow> (\<exists>w u. s = w @ u \<and> length w = Suc n \<and> list_all P w
            \<and> x \<in> set (K (i + Suc n, u, c)))"
        (is "?L \<longleftrightarrow> ?R")
      proof
        assume ?L
        then obtain w u where "t = w @ u" "length w = n" "list_all P w"
          "x \<in> set (K (Suc i + n, u, c))" by blast
        with Cons True show ?R by (intro exI [of _ "a # w"] exI [of _ u]) auto
      next
        assume ?R
        then obtain w u where w: "s = w @ u" "length w = Suc n" "list_all P w"
          "x \<in> set (K (i + Suc n, u, c))" by blast
        then obtain b w' where "w = b # w'" by (cases w) auto
        with w Cons show ?L by (intro exI [of _ w'] exI [of _ u]) auto
      qed
      finally show ?thesis .
    next
      case False
      have "x \<notin> set (iter (Suc n) (rm (Sym P)) K (i, s, c))"
        using Cons False by simp
      moreover have "\<not> (\<exists>w u. s = w @ u \<and> length w = Suc n \<and> list_all P w
            \<and> x \<in> set (K (i + Suc n, u, c)))"
      proof
        assume "\<exists>w u. s = w @ u \<and> length w = Suc n \<and> list_all P w
            \<and> x \<in> set (K (i + Suc n, u, c))"
        then obtain w u where w: "s = w @ u" "length w = Suc n" "list_all P w" by blast
        then obtain b w' where "w = b # w'" by (cases w) auto
        with w Cons False show False by auto
      qed
      ultimately show ?thesis by blast
    qed
  qed
qed

lemma rm_Rep_Sym_iff:
  assumes "\<And>m. mx = Some m \<Longrightarrow> mn \<le> m"
  shows "(j, s', c') \<in> set (rm (Rep mn mx g (Sym P)) (i, s, c)) \<longleftrightarrow>
     (\<exists>w. s = w @ s' \<and> list_all P w \<and> mn \<le> length w
          \<and> (\<forall>m. mx = Some m \<longrightarrow> length w \<le> m) \<and> j = i + length w \<and> c' = c)"
    (is "?L \<longleftrightarrow> ?R")
proof -
  have bound: "\<And>w. (\<forall>m. map_option (\<lambda>n. n - mn) mx = Some m \<longrightarrow> length w \<le> m)
      \<longleftrightarrow> (\<forall>m. mx = Some m \<longrightarrow> mn + length w \<le> m)"
    using assms by (cases mx) auto
  have "?L \<longleftrightarrow> (\<exists>w t. s = w @ t \<and> length w = mn \<and> list_all P w
      \<and> (j, s', c') \<in> set (star (rm (Sym P)) (map_option (\<lambda>n. n - mn) mx) g (i + mn, t, c)))"
    by (simp only: rm.simps iter_Sym_iff)
  also have "\<dots> \<longleftrightarrow> (\<exists>w t. s = w @ t \<and> length w = mn \<and> list_all P w
      \<and> (\<exists>v. t = v @ s' \<and> list_all P v \<and> (\<forall>m. mx = Some m \<longrightarrow> mn + length v \<le> m)
             \<and> j = i + mn + length v \<and> c' = c))"
    by (simp only: star_Sym_iff bound)
  also have "\<dots> \<longleftrightarrow> ?R"
  proof
    assume "\<exists>w t. s = w @ t \<and> length w = mn \<and> list_all P w
      \<and> (\<exists>v. t = v @ s' \<and> list_all P v \<and> (\<forall>m. mx = Some m \<longrightarrow> mn + length v \<le> m)
             \<and> j = i + mn + length v \<and> c' = c)"
    then obtain w t v where "s = w @ t" "length w = mn" "list_all P w" "t = v @ s'"
      "list_all P v" "\<forall>m. mx = Some m \<longrightarrow> mn + length v \<le> m" "j = i + mn + length v" "c' = c"
      by blast
    then show ?R by (intro exI [of _ "w @ v"]) auto
  next
    assume ?R
    then obtain w where w: "s = w @ s'" "list_all P w" "mn \<le> length w"
      "\<forall>m. mx = Some m \<longrightarrow> length w \<le> m" "j = i + length w" "c' = c" by blast
    have "s = take mn w @ (drop mn w @ s')" using w by simp
    moreover have "length (take mn w) = mn" using w by simp
    moreover have "list_all P (take mn w)" "list_all P (drop mn w)"
      using w by (auto simp: list_all_iff dest: in_set_takeD in_set_dropD)
    moreover have "\<forall>m. mx = Some m \<longrightarrow> mn + length (drop mn w) \<le> m" using w by auto
    moreover have "j = i + mn + length (drop mn w)" using w by auto
    ultimately show "\<exists>w t. s = w @ t \<and> length w = mn \<and> list_all P w
      \<and> (\<exists>v. t = v @ s' \<and> list_all P v \<and> (\<forall>m. mx = Some m \<longrightarrow> mn + length v \<le> m)
             \<and> j = i + mn + length v \<and> c' = c)"
      using w by blast
  qed
  finally show ?thesis .
qed


lemma rm_SeqE:
  assumes "x \<in> set (rm (Seq a b) st)"
  obtains y where "y \<in> set (rm a st)" "x \<in> set (rm b y)"
  using assms by auto

lemma rm_SeqI: "y \<in> set (rm a st) \<Longrightarrow> x \<in> set (rm b y) \<Longrightarrow> x \<in> set (rm (Seq a b) st)"
  by auto

lemma rm_plus_iff:
  "(j, s', c') \<in> set (rm (rPlus (Sym P)) (i, s, c)) \<longleftrightarrow>
     (\<exists>w. s = w @ s' \<and> list_all P w \<and> w \<noteq> [] \<and> j = i + length w \<and> c' = c)"
  unfolding rPlus_def by (subst rm_Rep_Sym_iff) (auto simp: Suc_le_eq)

lemma rm_lazyPlus_iff:
  "(j, s', c') \<in> set (rm (rLazyPlus (Sym P)) (i, s, c)) \<longleftrightarrow>
     (\<exists>w. s = w @ s' \<and> list_all P w \<and> w \<noteq> [] \<and> j = i + length w \<and> c' = c)"
  unfolding rLazyPlus_def by (subst rm_Rep_Sym_iff) (auto simp: Suc_le_eq)

lemma rm_star_iff:
  "(j, s', c') \<in> set (rm (rStar (Sym P)) (i, s, c)) \<longleftrightarrow>
     (\<exists>w. s = w @ s' \<and> list_all P w \<and> j = i + length w \<and> c' = c)"
  unfolding rStar_def by (subst rm_Rep_Sym_iff) auto

lemma rm_opt_lit_iff:
  "(j, s', c') \<in> set (rm (rOpt (rLit a)) (i, s, c)) \<longleftrightarrow>
     ((s' = s \<and> j = i \<or> s = a # s' \<and> j = Suc i) \<and> c' = c)"
proof -
  have "(j, s', c') \<in> set (rm (rOpt (rLit a)) (i, s, c)) \<longleftrightarrow>
     (\<exists>w. s = w @ s' \<and> list_all (\<lambda>x. x = a) w \<and> length w \<le> 1 \<and> j = i + length w \<and> c' = c)"
    unfolding rOpt_def rLit_def by (subst rm_Rep_Sym_iff) auto
  also have "\<dots> \<longleftrightarrow> ((s' = s \<and> j = i \<or> s = a # s' \<and> j = Suc i) \<and> c' = c)"
    (is "?L \<longleftrightarrow> ?R")
  proof
    assume ?L
    then obtain w where w: "s = w @ s'" "list_all (\<lambda>x. x = a) w" "length w \<le> 1"
      "j = i + length w" "c' = c" by blast
    show ?R
    proof (cases w)
      case Nil
      with w show ?thesis by simp
    next
      case (Cons b w')
      with w have "w' = []" "b = a" by auto
      with w Cons show ?thesis by simp
    qed
  next
    assume r: ?R
    then have d: "s' = s \<and> j = i \<or> s = a # s' \<and> j = Suc i" and c: "c' = c" by auto
    from d show ?L
    proof
      assume "s' = s \<and> j = i"
      with c show ?L by (intro exI [of _ "[]"]) simp
    next
      assume "s = a # s' \<and> j = Suc i"
      with c show ?L by (intro exI [of _ "[a]"]) simp
    qed
  qed
  finally show ?thesis .
qed

lemma rm_d2_iff:
  "(j, s', c') \<in> set (rm d2 (i, s, c)) \<longleftrightarrow>
     (\<exists>w. s = w @ s' \<and> list_all digit w \<and> length w = 2 \<and> j = i + 2 \<and> c' = c)"
  unfolding d2_def rRep_def by (subst rm_Rep_Sym_iff) auto

lemma rm_amount_iff:
  "(j, s', c') \<in> set (rm amount (i, s, c)) \<longleftrightarrow>
     (\<exists>ip fr. s = ip @ CHR ''.'' # fr @ s' \<and> ip \<noteq> [] \<and> list_all digit ip
        \<and> length fr = 2 \<and> list_all digit fr \<and> j = i + length ip + 3 \<and> c' = c)"
  (is "?L \<longleftrightarrow> ?R")
proof
  assume ?L
  then have "(j, s', c') \<in> set (rm (Seq (rPlus (Sym digit)) (Seq (rLit (CHR ''.'')) (Seq d2 Eps))) (i, s, c))"
    by (simp add: amount_def rCat_def)
  then obtain y where y: "y \<in> set (rm (rPlus (Sym digit)) (i, s, c))"
    and x: "(j, s', c') \<in> set (rm (Seq (rLit (CHR ''.'')) (Seq d2 Eps)) y)"
    by (rule rm_SeqE)
  obtain j1 s1 c1 where y1: "y = (j1, s1, c1)" by (cases y) auto
  from y y1 obtain ip where ip: "s = ip @ s1" "list_all digit ip" "ip \<noteq> []"
    "j1 = i + length ip" "c1 = c"
    by (auto simp: rm_plus_iff)
  from x y1 obtain t where t: "s1 = CHR ''.'' # t" and x2: "(j, s', c') \<in> set (rm d2 (Suc j1, t, c1))"
    by (cases s1) (auto simp: rLit_def split: if_splits)
  from x2 obtain fr where fr: "t = fr @ s'" "list_all digit fr" "length fr = 2"
    "j = Suc j1 + 2" "c' = c1"
    by (auto simp: rm_d2_iff)
  show ?R
    using ip t fr by (intro exI [of _ ip] exI [of _ fr]) simp
next
  assume ?R
  then obtain ip fr where h: "s = ip @ CHR ''.'' # fr @ s'" "ip \<noteq> []" "list_all digit ip"
    "length fr = 2" "list_all digit fr" "j = i + length ip + 3" "c' = c" by blast
  have a: "(i + length ip, CHR ''.'' # fr @ s', c) \<in> set (rm (rPlus (Sym digit)) (i, s, c))"
    using h by (simp add: rm_plus_iff)
  have b: "(i + length ip + 3, s', c) \<in> set (rm d2 (Suc (i + length ip), fr @ s', c))"
    using h by (simp add: rm_d2_iff)
  have "(j, s', c') \<in> set (rm (Seq (rLit (CHR ''.'')) (Seq d2 Eps)) (i + length ip, CHR ''.'' # fr @ s', c))"
    using b h by (simp add: rLit_def)
  with a have "(j, s', c') \<in> set (rm (Seq (rPlus (Sym digit)) (Seq (rLit (CHR ''.'')) (Seq d2 Eps))) (i, s, c))"
    by (rule rm_SeqI)
  then show ?L by (simp add: amount_def rCat_def)
qed


lemma rm_Grp_iff:
  "y \<in> set (rm (Grp k r) (i, s, c)) \<longleftrightarrow>
     (\<exists>j s' c'. (j, s', c') \<in> set (rm r (i, s, c)) \<and> y = (j, s', (k, take (j - i) s) # c'))"
  by (auto simp: image_iff) force

lemma price_tail_E:
  assumes "x \<in> set (rm (Seq (rPlus (Sym space)) (Seq (rOpt (rLit (CHR ''$'')))
                       (Seq (Grp k amount) (Seq Eol Eps)))) (i, s, c))"
  obtains w d ip fr where "s = w @ d @ ip @ CHR ''.'' # fr" "w \<noteq> []" "list_all space w"
    "d = [] \<or> d = ''$''" "ip \<noteq> []" "list_all digit ip" "length fr = 2" "list_all digit fr"
    "x = (i + length s, [], (k, ip @ CHR ''.'' # fr) # c)"
proof -
  from assms obtain y1 where y1: "y1 \<in> set (rm (rPlus (Sym space)) (i, s, c))"
    and x1: "x \<in> set (rm (Seq (rOpt (rLit (CHR ''$''))) (Seq (Grp k amount) (Seq Eol Eps))) y1)"
    by (rule rm_SeqE)
  obtain j1 s1 c1 where e1: "y1 = (j1, s1, c1)" by (cases y1) auto
  from y1 e1 obtain w where w: "s = w @ s1" "list_all space w" "w \<noteq> []" "j1 = i + length w" "c1 = c"
    by (auto simp: rm_plus_iff)
  from x1 obtain y2 where y2: "y2 \<in> set (rm (rOpt (rLit (CHR ''$''))) y1)"
    and x2: "x \<in> set (rm (Seq (Grp k amount) (Seq Eol Eps)) y2)"
    by (rule rm_SeqE)
  obtain j2 s2 c2 where e2: "y2 = (j2, s2, c2)" by (cases y2) auto
  from y2 e1 e2 have "(s2 = s1 \<and> j2 = j1 \<or> s1 = CHR ''$'' # s2 \<and> j2 = Suc j1) \<and> c2 = c1"
    by (simp add: rm_opt_lit_iff)
  then obtain d where d: "s1 = d @ s2" "d = [] \<or> d = ''$''" "j2 = j1 + length d" "c2 = c1"
    by (metis add.right_neutral append_Cons append_Nil length_Cons list.size(3) add_Suc_right)
  from x2 obtain y3 where y3: "y3 \<in> set (rm (Grp k amount) y2)"
    and x3: "x \<in> set (rm (Seq Eol Eps) y3)"
    by (rule rm_SeqE)
  from y3 e2 obtain j3 s3 c3 where a3: "(j3, s3, c3) \<in> set (rm amount (j2, s2, c2))"
    and e3: "y3 = (j3, s3, (k, take (j3 - j2) s2) # c3)"
    by (auto simp: rm_Grp_iff)
  from a3 obtain ip fr where a: "s2 = ip @ CHR ''.'' # fr @ s3" "ip \<noteq> []" "list_all digit ip"
    "length fr = 2" "list_all digit fr" "j3 = j2 + length ip + 3" "c3 = c2"
    by (auto simp: rm_amount_iff)
  from x3 e3 have n: "s3 = []" and xe: "x = y3"
    by (auto split: if_splits)
  have t: "take (j3 - j2) s2 = ip @ CHR ''.'' # fr"
    using a n by simp
  have l: "j3 = i + length s"
    using w d a n by simp
  show ?thesis
  proof (rule that [of w d ip fr])
    show "s = w @ d @ ip @ CHR ''.'' # fr" using w d a n by simp
    show "x = (i + length s, [], (k, ip @ CHR ''.'' # fr) # c)"
      using xe e3 n t l a d w by simp
  qed (use w d a in auto)
qed

lemma price_tail_I:
  assumes "s = w @ d @ ip @ CHR ''.'' # fr" "w \<noteq> []" "list_all space w"
    "d = [] \<or> d = ''$''" "ip \<noteq> []" "list_all digit ip" "length fr = 2" "list_all digit fr"
  shows "(i + length s, [], (k, ip @ CHR ''.'' # fr) # c)
     \<in> set (rm (Seq (rPlus (Sym space)) (Seq (rOpt (rLit (CHR ''$'')))
                 (Seq (Grp k amount) (Seq Eol Eps)))) (i, s, c))"
proof -
  let ?am = "ip @ CHR ''.'' # fr"
  have 1: "(i + length w, d @ ?am, c) \<in> set (rm (rPlus (Sym space)) (i, s, c))"
    using assms by (simp add: rm_plus_iff)
  have 2: "(i + length w + length d, ?am, c)
      \<in> set (rm (rOpt (rLit (CHR ''$''))) (i + length w, d @ ?am, c))"
    using assms(4) by (auto simp: rm_opt_lit_iff)
  have "(i + length w + length d + length ip + 3, [], c)
      \<in> set (rm amount (i + length w + length d, ?am, c))"
    using assms by (subst rm_amount_iff) (intro exI [of _ ip] exI [of _ fr], simp)
  then have 3: "(i + length w + length d + length ip + 3, [], (k, ?am) # c)
      \<in> set (rm (Grp k amount) (i + length w + length d, ?am, c))"
    using assms(7) by (subst rm_Grp_iff) (auto intro!: exI [of _ "i + length w + length d + length ip + 3"])
  have 4: "(i + length w + length d + length ip + 3, [], (k, ?am) # c)
      \<in> set (rm (Seq Eol Eps) (i + length w + length d + length ip + 3, [], (k, ?am) # c))"
    by simp
  have l: "i + length s = i + length w + length d + length ip + 3"
    using assms by simp
  show ?thesis
    unfolding l by (rule rm_SeqI [OF 1]) (rule rm_SeqI [OF 2], rule rm_SeqI [OF 3], rule 4)
qed

lemma re_item1_unfold:
  "re_item1 = Seq Bol (Seq (Grp 1 (rLazyPlus (Sym anyc)))
      (Seq (rPlus (Sym space)) (Seq (rOpt (rLit (CHR ''$''))) (Seq (Grp 2 amount) (Seq Eol Eps)))))"
  by (simp add: re_item1_def rCat_def)

lemma re_item2_unfold:
  "re_item2 = Seq Bol (Seq (Grp 1 (rPlus (Sym digit))) (Seq (rPlus (Sym space))
      (Seq (Grp 2 (rLazyPlus (Sym anyc)))
      (Seq (rPlus (Sym space)) (Seq (rOpt (rLit (CHR ''$''))) (Seq (Grp 3 amount) (Seq Eol Eps)))))))"
  by (simp add: re_item2_def rCat_def)

lemma item1_E:
  assumes "x \<in> set (rm re_item1 (0, line, []))"
  obtains w1 w2 d ip fr where "line = w1 @ w2 @ d @ ip @ CHR ''.'' # fr"
    "w1 \<noteq> []" "list_all anyc w1" "w2 \<noteq> []" "list_all space w2"
    "x = (length line, [], [(2, ip @ CHR ''.'' # fr), (1, w1)])"
proof -
  from assms have "x \<in> set (rm (Seq (Grp 1 (rLazyPlus (Sym anyc)))
      (Seq (rPlus (Sym space)) (Seq (rOpt (rLit (CHR ''$''))) (Seq (Grp 2 amount) (Seq Eol Eps)))))
      (0, line, []))"
    by (simp add: re_item1_unfold)
  then obtain y where y: "y \<in> set (rm (Grp 1 (rLazyPlus (Sym anyc))) (0, line, []))"
    and x: "x \<in> set (rm (Seq (rPlus (Sym space)) (Seq (rOpt (rLit (CHR ''$'')))
                       (Seq (Grp 2 amount) (Seq Eol Eps)))) y)"
    by (rule rm_SeqE)
  from y obtain j s c where g: "(j, s, c) \<in> set (rm (rLazyPlus (Sym anyc)) (0, line, []))"
    and e: "y = (j, s, (1, take (j - 0) line) # c)"
    by (auto simp: rm_Grp_iff)
  from g obtain w1 where w1: "line = w1 @ s" "list_all anyc w1" "w1 \<noteq> []" "j = length w1" "c = []"
    by (auto simp: rm_lazyPlus_iff)
  from x e have "x \<in> set (rm (Seq (rPlus (Sym space)) (Seq (rOpt (rLit (CHR ''$'')))
                       (Seq (Grp 2 amount) (Seq Eol Eps)))) (j, s, (1, take (j - 0) line) # c))"
    by simp
  then obtain w d ip fr where t: "s = w @ d @ ip @ CHR ''.'' # fr" "w \<noteq> []" "list_all space w"
    "d = [] \<or> d = ''$''" "ip \<noteq> []" "list_all digit ip" "length fr = 2" "list_all digit fr"
    "x = (j + length s, [], (2, ip @ CHR ''.'' # fr) # (1, take (j - 0) line) # c)"
    by (rule price_tail_E)
  show ?thesis
    by (rule that [of w1 w d ip fr]) (use w1 t in auto)
qed

lemma item1_I:
  assumes "line = w1 @ w2 @ d @ ip @ CHR ''.'' # fr" "w1 \<noteq> []" "list_all anyc w1"
    "w2 \<noteq> []" "list_all space w2" "d = [] \<or> d = ''$''" "ip \<noteq> []" "list_all digit ip"
    "length fr = 2" "list_all digit fr"
  shows "rm re_item1 (0, line, []) \<noteq> []"
proof -
  let ?s = "w2 @ d @ ip @ CHR ''.'' # fr"
  have "(0 + length w1, ?s, []) \<in> set (rm (rLazyPlus (Sym anyc)) (0, line, []))"
    using assms by (subst rm_lazyPlus_iff) simp
  then have 1: "(length w1, ?s, [(1, w1)]) \<in> set (rm (Grp 1 (rLazyPlus (Sym anyc))) (0, line, []))"
    using assms(1) by (subst rm_Grp_iff) (auto intro!: exI [of _ "length w1"])
  have 2: "(length w1 + length ?s, [], (2, ip @ CHR ''.'' # fr) # [(1, w1)])
      \<in> set (rm (Seq (rPlus (Sym space)) (Seq (rOpt (rLit (CHR ''$'')))
                 (Seq (Grp 2 amount) (Seq Eol Eps)))) (length w1, ?s, [(1, w1)]))"
    using assms by (intro price_tail_I [of ?s w2 d ip fr]) auto
  have "(length w1 + length ?s, [], (2, ip @ CHR ''.'' # fr) # [(1, w1)])
      \<in> set (rm re_item1 (0, line, []))"
    unfolding re_item1_unfold using rm_SeqI [OF 1 2] by simp
  then show ?thesis by auto
qed


lemma digit_not_space: "digit c \<Longrightarrow> \<not> space c"
  by (auto simp: digit_def space_def)

lemma digit_anyc: "digit c \<Longrightarrow> anyc c"
  by (auto simp: digit_def anyc_def)

lemma trim_keeps_prefix:
  assumes "xs \<noteq> []" "\<not> space (hd xs)" "\<not> space (last xs)"
  shows "take (length xs) (trim (xs @ ys)) = xs"
proof -
  have a: "dropWhile space (xs @ ys) = xs @ ys"
    using assms by (cases xs) auto
  have "dropWhile space (rev xs) = rev xs"
    using assms by (cases "rev xs") (auto simp: hd_rev)
  then have "\<exists>zs. dropWhile space (rev ys @ rev xs) = zs @ rev xs"
  proof (cases "\<forall>x \<in> set (rev ys). space x")
    case True
    then have "dropWhile space (rev ys @ rev xs) = dropWhile space (rev xs)"
      by (intro dropWhile_append2) auto
    with \<open>dropWhile space (rev xs) = rev xs\<close> show ?thesis by simp
  next
    case False
    then obtain x where "x \<in> set (rev ys)" "\<not> space x" by blast
    then have "dropWhile space (rev ys @ rev xs) = dropWhile space (rev ys) @ rev xs"
      by (rule dropWhile_append1)
    then show ?thesis by blast
  qed
  then obtain zs where "dropWhile space (rev ys @ rev xs) = zs @ rev xs" by blast
  then have "trim (xs @ ys) = xs @ rev zs"
    by (simp add: trim_def a)
  then show ?thesis by simp
qed

lemma rsearch_hit:
  "rm r (i, s, []) = x # xs \<Longrightarrow> rsearch r i s = Some (i, x)"
  by (subst rsearch.simps) simp

lemma rsearch_Bol_later: "i > 0 \<Longrightarrow> rsearch (Seq Bol r) i s = None"
proof (induction s arbitrary: i)
  case Nil
  then show ?case by (subst rsearch.simps) simp
next
  case (Cons a s)
  then show ?case by (subst rsearch.simps) simp
qed

lemma rsearch_Bol:
  "rsearch (Seq Bol r) 0 s = (case rm r (0, s, []) of [] \<Rightarrow> None | x # xs \<Rightarrow> Some (0, x))"
  by (subst rsearch.simps) (cases s; simp add: rsearch_Bol_later split: list.splits)

lemma rsearch_Bol_None:
  "rm (Seq Bol r) (0, s, []) = [] \<Longrightarrow> rsearch (Seq Bol r) 0 s = None"
  by (subst rsearch.simps) (cases s; simp add: rsearch_Bol_later)

lemma item2_E:
  assumes "x \<in> set (rm re_item2 (0, line, []))"
  obtains ds ws1 nm ws2 dl ip fr where "line = ds @ ws1 @ nm @ ws2 @ dl @ ip @ CHR ''.'' # fr"
    "ds \<noteq> []" "list_all digit ds" "ws1 \<noteq> []" "list_all space ws1" "nm \<noteq> []" "list_all anyc nm"
    "ws2 \<noteq> []" "list_all space ws2" "dl = [] \<or> dl = ''$''" "ip \<noteq> []" "list_all digit ip"
    "length fr = 2" "list_all digit fr"
proof -
  from assms have "x \<in> set (rm (Seq (Grp 1 (rPlus (Sym digit))) (Seq (rPlus (Sym space))
      (Seq (Grp 2 (rLazyPlus (Sym anyc)))
      (Seq (rPlus (Sym space)) (Seq (rOpt (rLit (CHR ''$''))) (Seq (Grp 3 amount) (Seq Eol Eps)))))))
      (0, line, []))"
    by (simp add: re_item2_unfold)
  then obtain y1 where y1: "y1 \<in> set (rm (Grp 1 (rPlus (Sym digit))) (0, line, []))"
    and x1: "x \<in> set (rm (Seq (rPlus (Sym space))
      (Seq (Grp 2 (rLazyPlus (Sym anyc)))
      (Seq (rPlus (Sym space)) (Seq (rOpt (rLit (CHR ''$''))) (Seq (Grp 3 amount) (Seq Eol Eps)))))) y1)"
    by (rule rm_SeqE)
  from y1 obtain j1 s1 c1 where g1: "(j1, s1, c1) \<in> set (rm (rPlus (Sym digit)) (0, line, []))"
    and e1: "y1 = (j1, s1, (1, take (j1 - 0) line) # c1)"
    by (auto simp: rm_Grp_iff)
  from g1 obtain ds where ds: "line = ds @ s1" "list_all digit ds" "ds \<noteq> []"
    by (auto simp: rm_plus_iff)
  from x1 obtain y2 where y2: "y2 \<in> set (rm (rPlus (Sym space)) y1)"
    and x2: "x \<in> set (rm (Seq (Grp 2 (rLazyPlus (Sym anyc)))
      (Seq (rPlus (Sym space)) (Seq (rOpt (rLit (CHR ''$''))) (Seq (Grp 3 amount) (Seq Eol Eps))))) y2)"
    by (rule rm_SeqE)
  obtain j2 s2 c2 where e2: "y2 = (j2, s2, c2)" by (cases y2) auto
  from y2 e1 e2 obtain ws1 where ws1: "s1 = ws1 @ s2" "list_all space ws1" "ws1 \<noteq> []"
    by (auto simp: rm_plus_iff)
  from x2 obtain y3 where y3: "y3 \<in> set (rm (Grp 2 (rLazyPlus (Sym anyc))) y2)"
    and x3: "x \<in> set (rm (Seq (rPlus (Sym space)) (Seq (rOpt (rLit (CHR ''$'')))
                       (Seq (Grp 3 amount) (Seq Eol Eps)))) y3)"
    by (rule rm_SeqE)
  from y3 e2 obtain j3 s3 c3 where g3: "(j3, s3, c3) \<in> set (rm (rLazyPlus (Sym anyc)) (j2, s2, c2))"
    and e3: "y3 = (j3, s3, (2, take (j3 - j2) s2) # c3)"
    by (auto simp: rm_Grp_iff)
  from g3 obtain nm where nm: "s2 = nm @ s3" "list_all anyc nm" "nm \<noteq> []"
    by (auto simp: rm_lazyPlus_iff)
  from x3 e3 have "x \<in> set (rm (Seq (rPlus (Sym space)) (Seq (rOpt (rLit (CHR ''$'')))
                       (Seq (Grp 3 amount) (Seq Eol Eps)))) (j3, s3, (2, take (j3 - j2) s2) # c3))"
    by simp
  then obtain ws2 dl ip fr where t: "s3 = ws2 @ dl @ ip @ CHR ''.'' # fr" "ws2 \<noteq> []"
    "list_all space ws2" "dl = [] \<or> dl = ''$''" "ip \<noteq> []" "list_all digit ip" "length fr = 2"
    "list_all digit fr"
    "x = (j3 + length s3, [], (3, ip @ CHR ''.'' # fr) # (2, take (j3 - j2) s2) # c3)"
    by (rule price_tail_E)
  show ?thesis
    by (rule that [of ds ws1 nm ws2 dl ip fr]) (use ds ws1 nm t in auto)
qed

lemma qty_line_shape1:
  assumes line: "line = ds @ ws1 @ nm @ ws2 @ dl @ ip @ CHR ''.'' # fr"
    and ds: "ds \<noteq> []" "list_all digit ds"
    and ws1: "ws1 \<noteq> []" "list_all space ws1" "list_all anyc ws1"
    and nm: "nm \<noteq> []" "list_all anyc nm"
    and ws2: "ws2 \<noteq> []" "list_all space ws2"
    and dl: "dl = [] \<or> dl = ''$''"
    and am: "ip \<noteq> []" "list_all digit ip" "length fr = 2" "list_all digit fr"
  shows "\<exists>m. rmatch re_item1 line = Some m \<and> take (length ds) (trim (grp m 1)) = ds"
proof -
  have "list_all anyc (ds @ ws1 @ nm)"
    using ds ws1 nm by (auto simp: list_all_iff digit_anyc)
  moreover have "line = (ds @ ws1 @ nm) @ ws2 @ dl @ ip @ CHR ''.'' # fr"
    using line by simp
  ultimately have "rm re_item1 (0, line, []) \<noteq> []"
    using ds ws2 dl am by (intro item1_I [of line "ds @ ws1 @ nm" ws2 dl ip fr]) auto
  then obtain x xs where r: "rm re_item1 (0, line, []) = x # xs"
    by (cases "rm re_item1 (0, line, [])") auto
  then have "x \<in> set (rm re_item1 (0, line, []))" by simp
  then obtain w1 w2 d ip' fr' where w: "line = w1 @ w2 @ d @ ip' @ CHR ''.'' # fr'"
    "w1 \<noteq> []" "list_all anyc w1" "w2 \<noteq> []" "list_all space w2"
    "x = (length line, [], [(2, ip' @ CHR ''.'' # fr'), (1, w1)])"
    by (rule item1_E)
  have len: "length ds \<le> length w1"
  proof (rule ccontr)
    assume "\<not> length ds \<le> length w1"
    then have lt: "length w1 < length ds" by simp
    have "line ! length w1 = hd w2"
      using w(1) w(4) by (cases w2) (simp_all add: nth_append)
    moreover have "line ! length w1 = ds ! length w1"
      using line lt by (simp add: nth_append)
    moreover have "space (hd w2)"
      using w(4) w(5) by (cases w2) auto
    moreover have "digit (ds ! length w1)"
      using ds lt by (simp add: list_all_length)
    ultimately show False using digit_not_space by metis
  qed
  have "take (length ds) w1 = take (length ds) line"
    using w(1) len by simp
  also have "\<dots> = ds" using line by simp
  finally have p: "take (length ds) w1 = ds" .
  then have w1: "w1 = ds @ drop (length ds) w1"
    by (metis append_take_drop_id)
  have "\<not> space (hd ds)" "\<not> space (last ds)"
    using ds by (auto simp: list_all_iff intro!: digit_not_space)
  then have t: "take (length ds) (trim (ds @ drop (length ds) w1)) = ds"
    using ds(1) by (intro trim_keeps_prefix) auto
  have "rsearch re_item1 0 line = Some (0, x)"
    using r by (rule rsearch_hit)
  then have m: "rmatch re_item1 line = Some \<lparr>m_index = 0, m_text = line,
      m_groups = [(2, ip' @ CHR ''.'' # fr'), (1, w1)], m_end = length line, m_rest = []\<rparr>"
    using w(6) by (simp add: rmatch_def execFrom_def)
  have g: "grp \<lparr>m_index = 0, m_text = line,
      m_groups = [(2, ip' @ CHR ''.'' # fr'), (1, w1)], m_end = length line, m_rest = []\<rparr> 1 = w1"
    by (simp add: grp_def grpOpt_def)
  have "take (length ds) (trim w1) = ds"
    using t w1 by simp
  with m g show ?thesis by simp
qed

lemma shape2_shadowed:
  assumes "rmatch re_item2 line \<noteq> None" "list_all anyc line"
  shows "rmatch re_item1 line \<noteq> None"
proof -
  from assms(1) have a: "rsearch re_item2 0 line \<noteq> None"
    by (auto simp: rmatch_def execFrom_def split: option.splits)
  have "rm re_item2 (0, line, []) \<noteq> []"
  proof
    assume "rm re_item2 (0, line, []) = []"
    then have "rsearch re_item2 0 line = None"
      unfolding re_item2_unfold by (rule rsearch_Bol_None)
    with a show False by simp
  qed
  then obtain x where "x \<in> set (rm re_item2 (0, line, []))"
    by (cases "rm re_item2 (0, line, [])") auto
  then obtain ds ws1 nm ws2 dl ip fr where h: "line = ds @ ws1 @ nm @ ws2 @ dl @ ip @ CHR ''.'' # fr"
    "ds \<noteq> []" "list_all digit ds" "ws1 \<noteq> []" "list_all space ws1" "nm \<noteq> []" "list_all anyc nm"
    "ws2 \<noteq> []" "list_all space ws2" "dl = [] \<or> dl = ''$''" "ip \<noteq> []" "list_all digit ip"
    "length fr = 2" "list_all digit fr"
    by (rule item2_E)
  have "list_all anyc ws1" using assms(2) h(1) by (simp add: list_all_iff)
  with h have "\<exists>m. rmatch re_item1 line = Some m \<and> take (length ds) (trim (grp m 1)) = ds"
    by (intro qty_line_shape1 [of line ds ws1 nm ws2 dl ip fr]) auto
  then show ?thesis by auto
qed

text \<open>
  C9 as stated is false. A line of the form digits, white space, name, white space,
  amount is not always turned into an item by shape 1: where a carriage return follows
  the digits, \<^verbatim>\<open>(.+?)\<close> of shape 1 cannot pass it and shape 2 is reached (quantity 2 below);
  and a line that \<^verbatim>\<open>isNonItemLine\<close> excludes yields no item at all.
\<close>

theorem shape2_reached_after_carriage_return:
  "extractLineItem (''2'' @ [CHR 0x0D] @ ''Milk $3.50'') []
     = Some \<lparr>name = ''Milk'', price = Fin (7 / 2), quantity = Fin 2, unitPrice = None\<rparr>
   \<and> rmatch re_item1 (''2'' @ [CHR 0x0D] @ ''Milk $3.50'') = None
   \<and> extractLineItem ''2 Tax $1.00'' [] = None"
  by code_simp

text \<open>
  C9, amended. For every line that consists of digits, white space without a line
  terminator, a non-empty name without a line terminator, white space and an amount
  (optionally with a dollar sign) ending the line, and that \<^verbatim>\<open>isNonItemLine\<close> does not
  exclude, \<^verbatim>\<open>extractLineItem\<close> returns an item with quantity 1 whose name begins with the
  digits. Shape 2 is shadowed by shape 1 on every line without a line terminator:
  whenever shape 2 matches such a line, shape 1 matches it too, and shape 1 is tried
  first.
\<close>

theorem qty_line_is_shape1:
  "(line = ds @ ws1 @ nm @ ws2 @ dl @ ip @ CHR ''.'' # fr
      \<and> ds \<noteq> [] \<and> list_all digit ds
      \<and> ws1 \<noteq> [] \<and> list_all space ws1 \<and> list_all anyc ws1
      \<and> nm \<noteq> [] \<and> list_all anyc nm
      \<and> ws2 \<noteq> [] \<and> list_all space ws2
      \<and> (dl = [] \<or> dl = ''$'')
      \<and> ip \<noteq> [] \<and> list_all digit ip \<and> length fr = 2 \<and> list_all digit fr
      \<and> \<not> isNonItemLine line
    \<longrightarrow> (\<exists>it. extractLineItem line nxt = Some it \<and> quantity it = Fin 1
              \<and> take (length ds) (name it) = ds))
   \<and> (rmatch re_item2 line \<noteq> None \<and> list_all anyc line \<longrightarrow> rmatch re_item1 line \<noteq> None)"
proof (intro conjI impI)
  assume h: "line = ds @ ws1 @ nm @ ws2 @ dl @ ip @ CHR ''.'' # fr
      \<and> ds \<noteq> [] \<and> list_all digit ds
      \<and> ws1 \<noteq> [] \<and> list_all space ws1 \<and> list_all anyc ws1
      \<and> nm \<noteq> [] \<and> list_all anyc nm
      \<and> ws2 \<noteq> [] \<and> list_all space ws2
      \<and> (dl = [] \<or> dl = ''$'')
      \<and> ip \<noteq> [] \<and> list_all digit ip \<and> length fr = 2 \<and> list_all digit fr
      \<and> \<not> isNonItemLine line"
  then have "\<exists>m. rmatch re_item1 line = Some m \<and> take (length ds) (trim (grp m 1)) = ds"
    by (intro qty_line_shape1 [of line ds ws1 nm ws2 dl ip fr]) auto
  then obtain m where "rmatch re_item1 line = Some m" "take (length ds) (trim (grp m 1)) = ds"
    by blast
  moreover from h have "\<not> isNonItemLine line" by blast
  ultimately show "\<exists>it. extractLineItem line nxt = Some it \<and> quantity it = Fin 1
              \<and> take (length ds) (name it) = ds"
    by (simp add: extractLineItem_def)
next
  assume "rmatch re_item2 line \<noteq> None \<and> list_all anyc line"
  then show "rmatch re_item1 line \<noteq> None"
    using shape2_shadowed by blast
qed

theorem qty_line_is_shape1_witness:
  "\<not> isNonItemLine ''2 Milk $3.50''
   \<and> (\<exists>it. extractLineItem ''2 Milk $3.50'' [] = Some it \<and> quantity it = Fin 1
          \<and> take (length ''2'') (name it) = ''2'')
   \<and> rmatch re_item2 ''2 Milk $3.50'' \<noteq> None
   \<and> list_all anyc ''2 Milk $3.50''
   \<and> rmatch re_item1 ''2 Milk $3.50'' \<noteq> None"
proof -
  have a: "\<not> isNonItemLine ''2 Milk $3.50''" by code_simp
  have b: "rmatch re_item2 ''2 Milk $3.50'' \<noteq> None" by code_simp
  have c: "list_all anyc ''2 Milk $3.50''" by (simp add: anyc_def)
  note t = qty_line_is_shape1 [of "''2 Milk $3.50''" "''2''" "'' ''" "''Milk''" "'' ''"
      "''$''" "''3''" "''50''" "[]"]
  have "\<exists>it. extractLineItem ''2 Milk $3.50'' [] = Some it \<and> quantity it = Fin 1
          \<and> take (length ''2'') (name it) = ''2''"
    by (rule mp [OF conjunct1 [OF t]]) (simp add: a digit_def space_def anyc_def)
  moreover have "rmatch re_item1 ''2 Milk $3.50'' \<noteq> None"
    by (rule mp [OF conjunct2 [OF t]]) (rule conjI [OF b c])
  ultimately show ?thesis using a b c by (intro conjI)
qed

subsection \<open>Subtotal lines and the total\<close>


lemma rStrI_Nil: "rStrI [] = Eps"
  by (simp add: rStrI_def rCat_def)

lemma rStrI_Cons: "rStrI (a # w) = Seq (rLitI a) (rStrI w)"
  by (simp add: rStrI_def rCat_def)

lemma rm_strI_Cons:
  "rm (Seq (rStrI (a # w)) r) (i, x # s, c) =
     (if x = lowerChar a \<or> x = upperChar a then rm (Seq (rStrI w) r) (Suc i, s, c) else [])"
  by (simp add: rStrI_Cons rLitI_def)

lemma rm_strI_Cons_Nil: "rm (Seq (rStrI (a # w)) r) (i, [], c) = []"
  by (simp add: rStrI_Cons rLitI_def)

lemma re_total_unfold: "re_total = Seq (rStrI ''total'') (rCat amountTail)"
  by (simp add: re_total_def rCat_def)

lemma re_subtotal_unfold: "re_subtotal = Seq (rStrI ''subtotal'') (rCat amountTail)"
  by (simp add: re_subtotal_def rCat_def)

lemma subtotal_shift:
  assumes "rm re_subtotal (i, s, c) \<noteq> []"
  shows "\<exists>x1 x2 x3 s3. s = x1 # x2 # x3 # s3
           \<and> x1 \<in> set ''sS'' \<and> x2 \<in> set ''uU'' \<and> x3 \<in> set ''bB''
           \<and> rm re_subtotal (i, s, c) = rm re_total (i + 3, s3, c)"
proof -
  obtain x1 s1 where s: "s = x1 # s1"
    using assms by (cases s) (auto simp: re_subtotal_unfold rm_strI_Cons_Nil simp del: rm.simps)
  obtain x2 s2 where s1: "s1 = x2 # s2"
    using assms s
    by (cases s1) (auto simp: re_subtotal_unfold rm_strI_Cons rm_strI_Cons_Nil simp del: rm.simps split: if_splits)
  obtain x3 s3 where s2: "s2 = x3 # s3"
    using assms s s1
    by (cases s2) (auto simp: re_subtotal_unfold rm_strI_Cons rm_strI_Cons_Nil simp del: rm.simps split: if_splits)
  have c1: "x1 = lowerChar (CHR ''s'') \<or> x1 = upperChar (CHR ''s'')"
    using assms s by (auto simp: re_subtotal_unfold rm_strI_Cons simp del: rm.simps split: if_splits)
  have c2: "x2 = lowerChar (CHR ''u'') \<or> x2 = upperChar (CHR ''u'')"
    using assms s s1 c1
    by (auto simp: re_subtotal_unfold rm_strI_Cons simp del: rm.simps split: if_splits)
  have c3: "x3 = lowerChar (CHR ''b'') \<or> x3 = upperChar (CHR ''b'')"
    using assms s s1 s2 c1 c2
    by (auto simp: re_subtotal_unfold rm_strI_Cons simp del: rm.simps split: if_splits)
  have "rm re_subtotal (i, s, c) = rm re_total (i + 3, s3, c)"
    unfolding re_subtotal_unfold re_total_unfold s s1 s2
    using c1 c2 c3 by (simp add: rm_strI_Cons eval_nat_numeral del: rm.simps)
  moreover have "x1 \<in> set ''sS''" "x2 \<in> set ''uU''" "x3 \<in> set ''bB''"
    using c1 c2 c3 by (auto simp: lowerChar_def upperChar_def)
  ultimately show ?thesis using s s1 s2 by blast
qed

lemma rsearch_SomeD:
  "rsearch r i s = Some (k, x) \<Longrightarrow>
   \<exists>n xs. k = i + n \<and> n \<le> length s \<and> rm r (k, drop n s, []) = x # xs"
proof (induction s arbitrary: i)
  case Nil
  then show ?case
    by (subst (asm) rsearch.simps) (auto split: list.splits)
next
  case (Cons a s)
  show ?case
  proof (cases "rm r (i, a # s, [])")
    case Nil
    with Cons.prems have "rsearch r (Suc i) s = Some (k, x)"
      by (subst (asm) rsearch.simps) simp
    then obtain n xs where "k = Suc i + n" "n \<le> length s" "rm r (k, drop n s, []) = x # xs"
      using Cons.IH by blast
    then show ?thesis by (intro exI [of _ "Suc n"] exI [of _ xs]) simp
  next
    case (Cons y ys)
    with Cons.prems have "k = i" "x = y"
      by (subst (asm) rsearch.simps, simp)+
    with Cons show ?thesis by (intro exI [of _ 0] exI [of _ ys]) simp
  qed
qed

lemma rsearch_found:
  "rm r (i + n, drop n s, []) \<noteq> [] \<Longrightarrow> n \<le> length s \<Longrightarrow> rsearch r i s \<noteq> None"
proof (induction n arbitrary: i s)
  case 0
  then show ?case by (subst rsearch.simps) (auto split: list.splits)
next
  case (Suc n)
  then obtain a t where s: "s = a # t" by (cases s) auto
  with Suc.prems have "rm r (Suc i + n, drop n t, []) \<noteq> []" "n \<le> length t" by auto
  then have "rsearch r (Suc i) t \<noteq> None" by (rule Suc.IH)
  then show ?case unfolding s by (subst rsearch.simps) (auto split: list.splits)
qed


text \<open>
  Every match of a pattern consumes at least \<open>minLen\<close> code units. The eleven date
  patterns consume at least one, so the loop over their matches is never cut: it is the
  \<^verbatim>\<open>while\<close> loop of the source.
\<close>

lemma star_len:
  assumes "\<And>st x. x \<in> set (f st) \<Longrightarrow> length (fst (snd x)) \<le> length (fst (snd st))"
    and "x \<in> set (star f mx g st)"
  shows "length (fst (snd x)) \<le> length (fst (snd st))"
  using assms
proof (induction f mx g st arbitrary: x rule: star.induct)
  case (1 f mx g st)
  show ?case
  proof (cases "mx = Some 0")
    case True
    with "1.prems"(2) show ?thesis by (subst (asm) star.simps) simp
  next
    case False
    from "1.prems"(2) False have "x = st \<or> (\<exists>y \<in> set [x \<leftarrow> f st. length (fst (snd x)) < length (fst (snd st))].
        x \<in> set (star f (map_option (\<lambda>n. n - 1) mx) g y))"
      by (subst (asm) star.simps) (auto split: if_splits)
    then show ?thesis
    proof
      assume "x = st"
      then show ?thesis by simp
    next
      assume "\<exists>y \<in> set [x \<leftarrow> f st. length (fst (snd x)) < length (fst (snd st))].
        x \<in> set (star f (map_option (\<lambda>n. n - 1) mx) g y)"
      then obtain y where y: "y \<in> set [x \<leftarrow> f st. length (fst (snd x)) < length (fst (snd st))]"
        and x: "x \<in> set (star f (map_option (\<lambda>n. n - 1) mx) g y)" by blast
      have "length (fst (snd x)) \<le> length (fst (snd y))"
      proof (cases g)
        case True
        show ?thesis by (rule "1.IH"(1) [OF False True y "1.prems"(1) x])
      next
        case g: False
        show ?thesis by (rule "1.IH"(2) [OF False g y "1.prems"(1) x])
      qed
      moreover from y have "length (fst (snd y)) < length (fst (snd st))" by simp
      ultimately show ?thesis by simp
    qed
  qed
qed

lemma iter_len:
  assumes f: "\<And>st x. x \<in> set (f st) \<Longrightarrow> length (fst (snd x)) + d \<le> length (fst (snd st))"
    and k: "\<And>st x. x \<in> set (k st) \<Longrightarrow> length (fst (snd x)) \<le> length (fst (snd st))"
  shows "x \<in> set (iter n f k st) \<Longrightarrow> length (fst (snd x)) + n * d \<le> length (fst (snd st))"
proof (induction n arbitrary: st)
  case 0
  then show ?case using k by simp
next
  case (Suc n)
  then obtain y where y: "y \<in> set (f st)" and x: "x \<in> set (iter n f k y)" by auto
  from x have "length (fst (snd x)) + n * d \<le> length (fst (snd y))" by (rule Suc.IH)
  moreover from y have "length (fst (snd y)) + d \<le> length (fst (snd st))" by (rule f)
  ultimately show ?case by simp
qed

lemma rm_len:
  "x \<in> set (rm r st) \<Longrightarrow> length (fst (snd x)) + minLen r \<le> length (fst (snd st))"
proof (induction r arbitrary: x st)
  case (Sym P)
  obtain i s c where st: "st = (i, s, c)" by (cases st) auto
  with Sym show ?case by (cases s) (auto split: if_splits)
next
  case Eps
  then show ?case by simp
next
  case (Seq a b)
  then obtain y where "y \<in> set (rm a st)" "x \<in> set (rm b y)" by auto
  then have "length (fst (snd y)) + minLen a \<le> length (fst (snd st))"
    "length (fst (snd x)) + minLen b \<le> length (fst (snd y))"
    using Seq.IH by blast+
  then show ?case by simp
next
  case (Alt a b)
  then have "x \<in> set (rm a st) \<or> x \<in> set (rm b st)" by auto
  then show ?case using Alt.IH by (auto simp: min_def dest!: Alt.IH)
next
  case (Rep mn mx g r)
  have w: "\<And>st x. x \<in> set (rm r st) \<Longrightarrow> length (fst (snd x)) \<le> length (fst (snd st))"
    using Rep.IH by fastforce
  have k: "\<And>st x. x \<in> set (star (rm r) (map_option (\<lambda>n. n - mn) mx) g st)
      \<Longrightarrow> length (fst (snd x)) \<le> length (fst (snd st))"
    using star_len [of "rm r"] w by blast
  from Rep.prems have "x \<in> set (iter mn (rm r) (star (rm r) (map_option (\<lambda>n. n - mn) mx) g) st)"
    by simp
  then have "length (fst (snd x)) + mn * minLen r \<le> length (fst (snd st))"
    using iter_len [of "rm r" "minLen r" "star (rm r) (map_option (\<lambda>n. n - mn) mx) g" x mn st]
      Rep.IH k by blast
  then show ?case by simp
next
  case (Grp k r)
  then obtain y where "y \<in> set (rm r st)" "fst (snd x) = fst (snd y)" by auto
  then show ?case using Grp.IH by fastforce
next
  case Bol
  then show ?case by (auto split: if_splits)
next
  case Eol
  then show ?case by (auto split: if_splits)
next
  case (NotAhead r)
  then show ?case by (auto split: if_splits)
qed

lemma execFrom_consumes:
  assumes "0 < minLen r" "execFrom r i s = Some m"
  shows "length (m_rest m) < length s"
proof -
  from assms(2) obtain k j rest c where s: "rsearch r i s = Some (k, j, rest, c)"
    and m: "m_rest m = rest"
    by (auto simp: execFrom_def split: option.splits)
  from s obtain n xs where "rm r (k, drop n s, []) = (j, rest, c) # xs"
    using rsearch_SomeD by blast
  then have "(j, rest, c) \<in> set (rm r (k, drop n s, []))" by simp
  then have "length rest + minLen r \<le> length (drop n s)"
    using rm_len by fastforce
  with assms(1) m show ?thesis by simp
qed

lemma execAll_uncut:
  assumes "0 < minLen r"
  shows "execAll r i s =
     (case execFrom r i s of None \<Rightarrow> [] | Some m \<Rightarrow> m # execAll r (m_end m) (m_rest m))"
  using execFrom_consumes [OF assms]
  by (subst execAll.simps) (auto split: option.splits)

lemma datePatterns_consume: "list_all (\<lambda>(pattern, ty, parser). 0 < minLen pattern) datePatterns"
  by code_simp

lemma execAll_datePatterns:
  assumes "(pattern, ty, parser) \<in> set datePatterns"
  shows "execAll pattern i s =
     (case execFrom pattern i s of None \<Rightarrow> []
      | Some m \<Rightarrow> m # execAll pattern (m_end m) (m_rest m))"
proof -
  have "0 < minLen pattern"
    using assms datePatterns_consume by (auto simp: list_all_iff)
  then show ?thesis by (rule execAll_uncut)
qed


lemma rmatch_SomeD:
  assumes "rmatch r line = Some m"
  shows "\<exists>xs. m_index m \<le> length line
     \<and> rm r (m_index m, drop (m_index m) line, []) = (m_end m, m_rest m, m_groups m) # xs"
proof -
  from assms obtain k j rest c where s: "rsearch r 0 line = Some (k, j, rest, c)"
    and m: "m = \<lparr>m_index = k, m_text = take (j - k) (drop (k - 0) line), m_groups = c,
                 m_end = j, m_rest = rest\<rparr>"
    by (auto simp: rmatch_def execFrom_def split: option.splits)
  from s obtain n xs where "k = 0 + n" "n \<le> length line" "rm r (k, drop n line, []) = (j, rest, c) # xs"
    using rsearch_SomeD by blast
  with m show ?thesis by simp
qed

lemma rmatch_total_of_subtotal:
  assumes "rmatch re_subtotal line = Some ms"
  shows "rmatch re_total line \<noteq> None \<and> isMoreLikelyTotal line"
proof -
  let ?k = "m_index ms"
  from assms obtain xs where k: "?k \<le> length line"
    and r: "rm re_subtotal (?k, drop ?k line, []) = (m_end ms, m_rest ms, m_groups ms) # xs"
    using rmatch_SomeD by blast
  then have "rm re_subtotal (?k, drop ?k line, []) \<noteq> []" by simp
  then obtain x1 x2 x3 s3 where d: "drop ?k line = x1 # x2 # x3 # s3"
    and e: "rm re_subtotal (?k, drop ?k line, []) = rm re_total (?k + 3, s3, [])"
    using subtotal_shift by blast
  have l: "?k + 3 \<le> length line"
  proof -
    have "length (drop ?k line) \<ge> 3" using d by simp
    then show ?thesis by simp
  qed
  have s3: "s3 = drop (?k + 3) line"
  proof -
    have "drop 3 (drop ?k line) = s3" using d by simp
    then show ?thesis by (simp add: add.commute)
  qed
  have tl: "rm re_total (?k + 3, drop (?k + 3) line, []) = (m_end ms, m_rest ms, m_groups ms) # xs"
    using r unfolding e s3 .
  then have ne: "rm re_total (0 + (?k + 3), drop (?k + 3) line, []) \<noteq> []"
    by simp
  then have "rsearch re_total 0 line \<noteq> None"
    using l by (rule rsearch_found)
  then have a: "rmatch re_total line \<noteq> None"
    by (auto simp: rmatch_def execFrom_def split: option.splits)
  have "rm (rStrI ''total'') (0 + (?k + 3), drop (?k + 3) line, []) \<noteq> []"
    using ne unfolding re_total_unfold by auto
  then have "rsearch (rStrI ''total'') 0 line \<noteq> None"
    using l by (rule rsearch_found)
  then have "rtest (rStrI ''total'') line"
    by (auto simp: rtest_def rmatch_def execFrom_def split: option.splits)
  then have "isMoreLikelyTotal line"
    by (simp add: isMoreLikelyTotal_def strongTotalIndicators_def)
  with a show ?thesis by simp
qed

lemma same_groups_at_shift:
  assumes "rmatch re_subtotal line = Some ms" "rmatch re_total line = Some mt"
    "m_index mt = m_index ms + 3"
  shows "m_groups mt = m_groups ms"
proof -
  let ?k = "m_index ms"
  from assms(1) obtain xs where
    r: "rm re_subtotal (?k, drop ?k line, []) = (m_end ms, m_rest ms, m_groups ms) # xs"
    using rmatch_SomeD by blast
  then have "rm re_subtotal (?k, drop ?k line, []) \<noteq> []" by simp
  then obtain x1 x2 x3 s3 where d: "drop ?k line = x1 # x2 # x3 # s3"
    and e: "rm re_subtotal (?k, drop ?k line, []) = rm re_total (?k + 3, s3, [])"
    using subtotal_shift by blast
  have s3: "s3 = drop (?k + 3) line"
  proof -
    have "drop 3 (drop ?k line) = s3" using d by simp
    then show ?thesis by (simp add: add.commute)
  qed
  from assms(2) obtain ys where
    t: "rm re_total (m_index mt, drop (m_index mt) line, []) = (m_end mt, m_rest mt, m_groups mt) # ys"
    using rmatch_SomeD by blast
  have "rm re_total (?k + 3, drop (?k + 3) line, []) = (m_end ms, m_rest ms, m_groups ms) # xs"
    using r unfolding e s3 .
  with t show ?thesis unfolding assms(3) by simp
qed

lemma total_after_sub_prefix:
  assumes "rmatch re_subtotal line = Some ms" "m_index ms = 0"
  shows "\<exists>mt. rmatch re_total line = Some mt \<and> m_index mt = m_index ms + 3"
proof -
  from assms obtain xs where
    r: "rm re_subtotal (0, line, []) = (m_end ms, m_rest ms, m_groups ms) # xs"
    using rmatch_SomeD [of re_subtotal line ms] by auto
  then have "rm re_subtotal (0, line, []) \<noteq> []" by simp
  then obtain x1 x2 x3 s3 where d: "line = x1 # x2 # x3 # s3"
    and c: "x1 \<in> set ''sS''" "x2 \<in> set ''uU''" "x3 \<in> set ''bB''"
    and e: "rm re_subtotal (0, line, []) = rm re_total (0 + 3, s3, [])"
    using subtotal_shift by blast
  have n0: "rm re_total (0, x1 # x2 # x3 # s3, []) = []"
    using c(1) unfolding re_total_unfold
    by (auto simp: rm_strI_Cons lowerChar_def upperChar_def simp del: rm.simps)
  have n1: "rm re_total (Suc 0, x2 # x3 # s3, []) = []"
    using c(2) unfolding re_total_unfold
    by (auto simp: rm_strI_Cons lowerChar_def upperChar_def simp del: rm.simps)
  have n2: "rm re_total (Suc (Suc 0), x3 # s3, []) = []"
    using c(3) unfolding re_total_unfold
    by (auto simp: rm_strI_Cons lowerChar_def upperChar_def simp del: rm.simps)
  have t3: "rm re_total (3, s3, []) = (m_end ms, m_rest ms, m_groups ms) # xs"
    using r unfolding e by simp
  have "rsearch re_total 0 line = rsearch re_total (Suc (Suc (Suc 0))) s3"
    unfolding d
    by (subst rsearch.simps, simp add: n0, subst rsearch.simps, simp add: n1,
        subst rsearch.simps, simp add: n2)
  also have "\<dots> = Some (3, m_end ms, m_rest ms, m_groups ms)"
    using t3 by (subst rsearch.simps) (simp add: eval_nat_numeral)
  finally show ?thesis using assms(2)
    by (simp add: rmatch_def execFrom_def)
qed


lemma positive_truthy: "ltNum (Fin 0) a \<Longrightarrow> truthy_num a"
  by (cases a) auto

lemma processLine_total:
  assumes "extractTotal line = Some a" "extractSubtotal line = Some a" "ltNum (Fin 0) a"
    "isMoreLikelyTotal line"
  shows "total (processLine xd i line nxt r) = Some a
       \<and> subtotal (processLine xd i line nxt r) = Some a"
  using assms positive_truthy [of a]
  by (simp add: processLine_def stepItem_def stepSubtotal_def stepTax_def stepTotal_def
      truthy_amt_def split: option.splits)

text \<open>
  C10 as stated is false where it says that every such line commits or overrides the
  total with the same amount. The total pattern takes the leftmost \<^verbatim>\<open>total\<close> that is
  followed by an amount, which need not be the one inside \<^verbatim>\<open>subtotal\<close>: on
  \<^verbatim>\<open>Total 0.00 Subtotal 8.00\<close> the subtotal is 8.00 and \<^verbatim>\<open>extractTotal\<close> returns nothing (0.00
  is out of range and no other pattern matches), and on \<^verbatim>\<open>Total 5.00 Subtotal 8.00\<close> the
  total is 5.00.
\<close>

theorem subtotal_line_total_differs:
  "extractSubtotal ''Total 0.00 Subtotal 8.00'' = Some (Fin 8)
   \<and> extractTotal ''Total 0.00 Subtotal 8.00'' = None
   \<and> extractSubtotal ''Total 5.00 Subtotal 8.00'' = Some (Fin 8)
   \<and> extractTotal ''Total 5.00 Subtotal 8.00'' = Some (Fin 5)"
  by code_simp

text \<open>
  C10, amended. Every line in which the subtotal pattern matches (\<^verbatim>\<open>subtotal\<close> followed by
  an amount \<open>a\<close>, \<open>0 < a < 10000\<close>) also matches the first total pattern and the strong
  indicator set, and \<^verbatim>\<open>extractSubtotal\<close> returns \<open>a\<close>. Where the leftmost match of the total
  pattern is the one inside that \<^verbatim>\<open>subtotal\<close> (no earlier \<^verbatim>\<open>total\<close> followed by an amount;
  in particular where the line begins with \<^verbatim>\<open>subtotal\<close>), \<^verbatim>\<open>extractTotal\<close> returns \<open>a\<close> too and
  the parser sets both \<open>subtotal\<close> and \<open>total\<close> to \<open>a\<close>, whatever the total was before.
\<close>

theorem subtotal_line_sets_total:
  "rmatch re_subtotal line = Some ms \<and> a = parseFloat (grp ms 1)
     \<and> ltNum (Fin 0) a \<and> ltNum a (Fin 10000) \<longrightarrow>
     isMoreLikelyTotal line \<and> rmatch re_total line \<noteq> None \<and> extractSubtotal line = Some a
     \<and> ((\<exists>mt. rmatch re_total line = Some mt \<and> m_index mt = m_index ms + 3) \<or> m_index ms = 0
          \<longrightarrow> extractTotal line = Some a
              \<and> total (processLine xd i line nxt r) = Some a
              \<and> subtotal (processLine xd i line nxt r) = Some a)"
proof (intro impI)
  assume h: "rmatch re_subtotal line = Some ms \<and> a = parseFloat (grp ms 1)
     \<and> ltNum (Fin 0) a \<and> ltNum a (Fin 10000)"
  then have ms: "rmatch re_subtotal line = Some ms" and a: "a = parseFloat (grp ms 1)"
    and pos: "ltNum (Fin 0) a" and lt: "ltNum a (Fin 10000)"
    by auto
  have 1: "rmatch re_total line \<noteq> None \<and> isMoreLikelyTotal line"
    using ms by (rule rmatch_total_of_subtotal)
  have 2: "extractSubtotal line = Some a"
    using ms a by (simp add: extractSubtotal_def subtotalPatterns_def)
  have 3: "extractTotal line = Some a
      \<and> total (processLine xd i line nxt r) = Some a
      \<and> subtotal (processLine xd i line nxt r) = Some a"
    if c: "(\<exists>mt. rmatch re_total line = Some mt \<and> m_index mt = m_index ms + 3) \<or> m_index ms = 0"
  proof -
    from c obtain mt where mt: "rmatch re_total line = Some mt" "m_index mt = m_index ms + 3"
      using total_after_sub_prefix [OF ms] by blast
    then have "m_groups mt = m_groups ms"
      using ms same_groups_at_shift by blast
    then have "grp mt 1 = grp ms 1"
      by (simp add: grp_def grpOpt_def)
    then have t: "extractTotal line = Some a"
      using mt a pos lt by (simp add: extractTotal_def totalPatterns_def)
    then show ?thesis
      using 1 2 pos processLine_total by blast
  qed
  show "isMoreLikelyTotal line \<and> rmatch re_total line \<noteq> None \<and> extractSubtotal line = Some a
     \<and> ((\<exists>mt. rmatch re_total line = Some mt \<and> m_index mt = m_index ms + 3) \<or> m_index ms = 0
          \<longrightarrow> extractTotal line = Some a
              \<and> total (processLine xd i line nxt r) = Some a
              \<and> subtotal (processLine xd i line nxt r) = Some a)"
    using 1 2 3 by blast
qed

theorem subtotal_line_sets_total_witness:
  "rmatch re_subtotal ''Subtotal: $8.00''
     = Some \<lparr>m_index = 0, m_text = ''Subtotal: $8.00'', m_groups = [(1, ''8.00'')],
             m_end = 15, m_rest = []\<rparr>
   \<and> parseFloat ''8.00'' = Fin 8
   \<and> isMoreLikelyTotal ''Subtotal: $8.00''
   \<and> extractSubtotal ''Subtotal: $8.00'' = Some (Fin 8)
   \<and> extractTotal ''Subtotal: $8.00'' = Some (Fin 8)
   \<and> total (processLine (extractDate_ocr env0) 1 ''Subtotal: $8.00'' [] (emptyResult []))
       = Some (Fin 8)
   \<and> subtotal (processLine (extractDate_ocr env0) 1 ''Subtotal: $8.00'' [] (emptyResult []))
       = Some (Fin 8)"
proof -
  let ?ms = "\<lparr>m_index = 0, m_text = ''Subtotal: $8.00'', m_groups = [(1, ''8.00'')],
             m_end = 15, m_rest = []\<rparr>"
  have a: "rmatch re_subtotal ''Subtotal: $8.00'' = Some ?ms"
    by code_simp
  have b: "parseFloat ''8.00'' = Fin 8"
    by code_simp
  have g: "grp ?ms 1 = ''8.00''"
    by (simp add: grp_def grpOpt_def)
  have h: "rmatch re_subtotal ''Subtotal: $8.00'' = Some ?ms \<and> Fin 8 = parseFloat (grp ?ms 1)
      \<and> ltNum (Fin 0) (Fin 8) \<and> ltNum (Fin 8) (Fin 10000)"
    using a b g by simp
  note t = subtotal_line_sets_total [of "''Subtotal: $8.00''" ?ms "Fin 8" "extractDate_ocr env0" 1
      "[]" "emptyResult []"]
  from mp [OF t h] show ?thesis using a b by simp
qed

subsection \<open>Day and month order\<close>












end
